theory Spec2Isabelle
  imports Complex_Main "HOL-Library.Word" "HOL-Library.AList"
begin

section \<open>Values of the host language\<close>

text \<open>
  A JavaScript string is a sequence of UTF-16 code units. The handlers compare code
  units only (whitespace, digits, quotes, control characters), so a string is a list of
  16-bit words. \<open>lit\<close> embeds an ASCII literal of the source.
\<close>

type_synonym jsstring = "16 word list"

definition lit :: "string \<Rightarrow> jsstring" where
  "lit s = map of_char s"

text \<open>
  The class \<open>\s\<close> of a regular expression and the characters removed by
  \<open>String.prototype.trim\<close> are the same set: TAB, LF, VT, FF, CR, SP, NBSP, the
  space separators U+1680, U+2000..U+200A, U+202F, U+205F, U+3000, the separators
  U+2028 and U+2029, and U+FEFF.
\<close>

definition is_ws :: "16 word \<Rightarrow> bool" where
  "is_ws c \<longleftrightarrow>
     c \<in> {0x9, 0xA, 0xB, 0xC, 0xD, 0x20, 0xA0, 0x1680, 0x2028, 0x2029, 0x202F, 0x205F,
          0x3000, 0xFEFF}
     \<or> (0x2000 \<le> c \<and> c \<le> 0x200A)"

definition trim :: "jsstring \<Rightarrow> jsstring" where
  "trim s = rev (dropWhile is_ws (rev (dropWhile is_ws s)))"

text \<open>The class \<open>\d\<close>: the ASCII digits.\<close>

definition is_digit :: "16 word \<Rightarrow> bool" where
  "is_digit c \<longleftrightarrow> 0x30 \<le> c \<and> c \<le> 0x39"

text \<open>
  The values that \<open>JSON.parse\<close> and the body parser deliver. A number of JSON is a
  finite double; the handlers only test numbers for zero, so the payload is a rational.
  An object is an association list in key order; a lookup reads the first entry of a
  key. \<open>None\<close> of \<open>json option\<close> stands for \<open>undefined\<close>.
\<close>

datatype json =
    JNull
  | JBool bool
  | JNum rat
  | JStr jsstring
  | JArr "json list"
  | JObj "(jsstring \<times> json) list"

type_synonym props = "(jsstring \<times> json) list"

text \<open>Decimal rendering of an array index, as \<open>Object.keys\<close> names it.\<close>

definition digit :: "nat \<Rightarrow> 16 word" where
  "digit d = of_nat (48 + d)"

function dec :: "nat \<Rightarrow> jsstring" where
  "dec n = (if n < 10 then [digit n] else dec (n div 10) @ [digit (n mod 10)])"
  by pat_completeness auto
termination
  by (relation "measure id") auto

text \<open>The number a decimal rendering denotes: the inverse of \<open>dec\<close>.\<close>

definition undec :: "jsstring \<Rightarrow> nat" where
  "undec ds = foldl (\<lambda>a c. 10 * a + (unat c - 48)) 0 ds"

text \<open>
  \<open>own_props v\<close> lists the own enumerable properties of \<open>v\<close> in the order of
  \<open>Object.keys v\<close>, each with its value: the entries of an object (one per key), the
  indices of an array, the indices of a string. Other primitives have none.
\<close>

fun own_props :: "json \<Rightarrow> props" where
  "own_props (JObj kvs) = AList.clearjunk kvs"
| "own_props (JArr xs) = zip (map dec [0..<length xs]) xs"
| "own_props (JStr s) = zip (map dec [0..<length s]) (map (\<lambda>c. JStr [c]) s)"
| "own_props _ = []"

text \<open>
  \<open>get_prop v k\<close> is the member access \<open>v.k\<close> on a value other than \<open>null\<close>:
  an own property, or \<open>length\<close> of an array or a string. Inherited properties are not
  modelled; none of the names the handlers read is one. On \<open>null\<close> the access throws,
  which every caller below decides before it calls \<open>get_prop\<close>.
\<close>

fun get_prop :: "json \<Rightarrow> jsstring \<Rightarrow> json option" where
  "get_prop (JObj kvs) k = map_of kvs k"
| "get_prop (JArr xs) k =
     (if k = lit ''length'' then Some (JNum (of_nat (length xs)))
      else map_of (own_props (JArr xs)) k)"
| "get_prop (JStr s) k =
     (if k = lit ''length'' then Some (JNum (of_nat (length s)))
      else map_of (own_props (JStr s)) k)"
| "get_prop _ k = None"

text \<open>Truthiness (\<open>ToBoolean\<close>) and \<open>typeof v === 'object'\<close>.\<close>

fun truthy :: "json \<Rightarrow> bool" where
  "truthy JNull = False"
| "truthy (JBool b) = b"
| "truthy (JNum n) = (n \<noteq> 0)"
| "truthy (JStr s) = (s \<noteq> [])"
| "truthy (JArr xs) = True"
| "truthy (JObj kvs) = True"

definition truthy_opt :: "json option \<Rightarrow> bool" where
  "truthy_opt v = (case v of None \<Rightarrow> False | Some x \<Rightarrow> truthy x)"

fun typeof_object :: "json \<Rightarrow> bool" where
  "typeof_object JNull = True"
| "typeof_object (JArr xs) = True"
| "typeof_object (JObj kvs) = True"
| "typeof_object _ = False"

text \<open>A timestamp is a reading of the clock, in milliseconds.\<close>

type_synonym time = nat

text \<open>
  What a handler sends: \<open>Reply200 x\<close> is \<open>res.json({ok: true, ...})\<close> with payload
  \<open>x\<close>, \<open>ReplyError s msg\<close> is \<open>res.status(s).json({ok: false, error: msg})\<close>, and
  \<open>Reply422 msg raw\<close> is the 422 reply of the parse endpoints with its \<open>raw\<close> field.
\<close>

datatype 'a reply =
    Reply200 'a
  | ReplyError nat jsstring
  | Reply422 jsstring jsstring

fun status :: "'a reply \<Rightarrow> nat" where
  "status (Reply200 x) = 200"
| "status (ReplyError s msg) = s"
| "status (Reply422 msg raw) = 422"

section \<open>The attempt merge engine: POST /api/attempts\<close>

text \<open>
  The stored attempt, with the fields the handler writes. \<open>answers\<close> and \<open>progress\<close>
  are plain objects: the handler is the only writer and always stores the objects it
  built with \<open>Object.assign({}, ...)\<close>.
\<close>

record attempt =
  attempt_id :: jsstring
  quizId :: "json option"
  email :: "json option"
  answers :: props
  progress :: props
  score :: "json option"
  totalQuestions :: "json option"
  submitted :: "json option"
  submittedAt :: time

text \<open>The pattern \<open>/^q\d+$/\<close>: the letter q, then one or more digits, to the end.\<close>

definition question_key :: "jsstring \<Rightarrow> bool" where
  "question_key k =
     (case k of [] \<Rightarrow> False | c # ds \<Rightarrow> c = 0x71 \<and> ds \<noteq> [] \<and> list_all is_digit ds)"

text \<open>
  The assignment \<open>o[k] = v\<close> on a plain object: it sets the own property \<open>k\<close>,
  except for the key \<open>__proto__\<close>, where it calls the setter inherited from
  \<open>Object.prototype\<close> and creates no own property. \<open>Object.assign({}, src)\<close>
  assigns the own properties of \<open>src\<close> in this way to a fresh object.
\<close>

definition assign_prop :: "jsstring \<Rightarrow> json \<Rightarrow> props \<Rightarrow> props" where
  "assign_prop k v obj = (if k = lit ''__proto__'' then obj else AList.update k v obj)"

definition object_assign :: "props \<Rightarrow> props" where
  "object_assign src = fold (\<lambda>(k, v) acc. assign_prop k v acc) (AList.clearjunk src) []"

text \<open>
  \<open>incomingAnswers\<close>: the entries of \<open>incoming.answers\<close> when that is an object, then
  every top-level entry of the payload whose key is a question key, assigned in this
  order into one fresh object.
\<close>

definition nested_answers :: "json \<Rightarrow> props" where
  "nested_answers incoming =
     (case get_prop incoming (lit ''answers'') of
        None \<Rightarrow> []
      | Some a \<Rightarrow>
          if truthy a \<and> typeof_object a
          then fold (\<lambda>(k, v) acc. assign_prop k v acc) (own_props a) []
          else [])"

definition incomingAnswers :: "json \<Rightarrow> props" where
  "incomingAnswers incoming =
     fold (\<lambda>(k, v) acc. if question_key k then AList.update k v acc else acc)
       (own_props incoming) (nested_answers incoming)"

definition incomingProgress :: "json \<Rightarrow> props" where
  "incomingProgress incoming =
     (case get_prop incoming (lit ''progress'') of
        None \<Rightarrow> []
      | Some p \<Rightarrow> if truthy p \<and> typeof_object p then own_props p else [])"

text \<open>\<open>typeof v === 'string' && v.trim() === ''\<close>\<close>

fun blank_string :: "json \<Rightarrow> bool" where
  "blank_string (JStr s) = (trim s = [])"
| "blank_string _ = False"

text \<open>The two loops over the incoming keys, each starting from the copy of the stored object.\<close>

definition mergedAnswers :: "props \<Rightarrow> props \<Rightarrow> props" where
  "mergedAnswers stored inc =
     fold (\<lambda>(k, v) m. if v = JNull then m else if blank_string v then m else assign_prop k v m)
       inc stored"

definition mergedProgress :: "props \<Rightarrow> props \<Rightarrow> props" where
  "mergedProgress stored inc =
     fold (\<lambda>(k, v) m. if v = JNull then m else assign_prop k v m) inc stored"

text \<open>
  \<open>Object.assign({}, existing && existing.answers ? existing.answers : {})\<close>, the
  copy of the stored answers the first loop starts from, and the same for
  \<open>progress\<close>.
\<close>

definition stored_answers :: "attempt option \<Rightarrow> props" where
  "stored_answers existing =
     (case existing of None \<Rightarrow> [] | Some e \<Rightarrow> object_assign (answers e))"

definition stored_progress :: "attempt option \<Rightarrow> props" where
  "stored_progress existing =
     (case existing of None \<Rightarrow> [] | Some e \<Rightarrow> object_assign (progress e))"

text \<open>
  The document the handler builds from the payload \<open>incoming\<close>, the record \<open>existing\<close>
  found under \<open>i\<close> (if any) and the clock.
\<close>

definition attempt_doc :: "jsstring \<Rightarrow> time \<Rightarrow> json \<Rightarrow> attempt option \<Rightarrow> attempt" where
  "attempt_doc i now incoming existing =
     \<lparr> attempt_id = i,
       quizId = get_prop incoming (lit ''quizId''),
       email = get_prop incoming (lit ''email''),
       answers = mergedAnswers (stored_answers existing) (incomingAnswers incoming),
       progress = mergedProgress (stored_progress existing) (incomingProgress incoming),
       score = get_prop incoming (lit ''score''),
       totalQuestions = get_prop incoming (lit ''totalQuestions''),
       submitted = get_prop incoming (lit ''submitted''),
       submittedAt = now \<rparr>"

text \<open>
  The persistence gateway is not part of the repository. The handlers reach it through
  \<open>findOne\<close> and \<open>findOneAndUpdate(filter, doc, {upsert: true, new: true,
  setDefaultsOnInsert: true})\<close>, modelled by its contract: the fields of \<open>doc\<close> are
  converted to the types the schema of the repository gives them; when a conversion
  fails, the call throws and nothing is written; otherwise the record under the
  filter's id is created if there is none, every field that \<open>doc\<close> defines is set
  to its converted value, a field that is \<open>undefined\<close> in \<open>doc\<close> is left as
  stored (on creation it takes the default of the schema, if it has one), and the call
  returns the record as it now is.

  A value of the schema's type, and \<open>null\<close>, is stored as it is. \<open>cast\<close> is the
  gateway's conversion of any other value, with \<open>None\<close> for the failure.
\<close>

datatype schema_type = TString | TNumber | TBoolean

fun conforms :: "schema_type \<Rightarrow> json \<Rightarrow> bool" where
  "conforms t JNull = True"
| "conforms TString (JStr s) = True"
| "conforms TNumber (JNum n) = True"
| "conforms TBoolean (JBool b) = True"
| "conforms t v = False"

definition cast_value :: "(schema_type \<Rightarrow> json \<Rightarrow> json option) \<Rightarrow> schema_type \<Rightarrow> json \<Rightarrow> json option" where
  "cast_value cast t v = (if conforms t v then Some v else cast t v)"

text \<open>
  One field of the update: \<open>None\<close> when the conversion fails, \<open>Some None\<close> when the
  field is \<open>undefined\<close> and not part of the update, \<open>Some (Some x)\<close> when it is set
  to \<open>x\<close>. \<open>put_field\<close> is the stored field after the update.
\<close>

definition cast_field ::
  "(schema_type \<Rightarrow> json \<Rightarrow> json option) \<Rightarrow> schema_type \<Rightarrow> json option \<Rightarrow> json option option" where
  "cast_field cast t v =
     (case v of None \<Rightarrow> Some None | Some x \<Rightarrow> map_option Some (cast_value cast t x))"

definition put_field :: "json option \<Rightarrow> json option \<Rightarrow> json option" where
  "put_field new old = (case new of None \<Rightarrow> old | Some x \<Rightarrow> Some x)"

text \<open>
  The upsert of an attempt, by the schema of the repository: \<open>quizId\<close> and
  \<open>email\<close> are strings, \<open>score\<close> and \<open>totalQuestions\<close> numbers, \<open>submitted\<close>
  a boolean with the default \<open>false\<close>; \<open>answers\<close> and \<open>progress\<close> are of the
  type \<open>Object\<close> and stored as they are. \<open>Inl\<close> is the message of the exception.
\<close>

definition upsert_attempt ::
  "(schema_type \<Rightarrow> json \<Rightarrow> json option) \<Rightarrow> attempt \<Rightarrow> (jsstring \<rightharpoonup> attempt)
     \<Rightarrow> jsstring + attempt \<times> (jsstring \<rightharpoonup> attempt)" where
  "upsert_attempt cast doc store =
     (case cast_field cast TString (quizId doc) of None \<Rightarrow> Inl (lit ''Cast to String failed'')
      | Some q \<Rightarrow>
     (case cast_field cast TString (email doc) of None \<Rightarrow> Inl (lit ''Cast to String failed'')
      | Some e \<Rightarrow>
     (case cast_field cast TNumber (score doc) of None \<Rightarrow> Inl (lit ''Cast to Number failed'')
      | Some s \<Rightarrow>
     (case cast_field cast TNumber (totalQuestions doc) of None \<Rightarrow> Inl (lit ''Cast to Number failed'')
      | Some t \<Rightarrow>
     (case cast_field cast TBoolean (submitted doc) of None \<Rightarrow> Inl (lit ''Cast to Boolean failed'')
      | Some b \<Rightarrow>
          let old = store (attempt_id doc);
              new =
                \<lparr> attempt_id = attempt_id doc,
                  quizId = put_field q (case old of None \<Rightarrow> None | Some prev \<Rightarrow> quizId prev),
                  email = put_field e (case old of None \<Rightarrow> None | Some prev \<Rightarrow> email prev),
                  answers = answers doc,
                  progress = progress doc,
                  score = put_field s (case old of None \<Rightarrow> None | Some prev \<Rightarrow> score prev),
                  totalQuestions =
                    put_field t (case old of None \<Rightarrow> None | Some prev \<Rightarrow> totalQuestions prev),
                  submitted =
                    put_field b (case old of None \<Rightarrow> Some (JBool False) | Some prev \<Rightarrow> submitted prev),
                  submittedAt = submittedAt doc \<rparr>
          in Inr (new, store(attempt_id doc \<mapsto> new)))))))"

text \<open>
  The handler. \<open>toStr\<close> is the host's string conversion of a template literal. The
  attempt collection is a map from the attempt id to the stored record. The handler
  reads the record under the id, builds the document, hands it to the upsert and
  replies with the record the upsert returns; an exception of the upsert is caught and
  answered with 500. The body parser delivers an object or an array; a body of
  \<open>null\<close> would make the destructuring at the head of the handler throw before
  anything is read or written, which the model answers with an error, the collection
  unchanged.
\<close>

definition attempt_key :: "(json option \<Rightarrow> jsstring) \<Rightarrow> json \<Rightarrow> jsstring" where
  "attempt_key toStr incoming =
     toStr (get_prop incoming (lit ''quizId'')) @ lit ''::'' @ toStr (get_prop incoming (lit ''email''))"

definition post_attempts ::
  "(json option \<Rightarrow> jsstring) \<Rightarrow> (schema_type \<Rightarrow> json \<Rightarrow> json option) \<Rightarrow> time \<Rightarrow> json
     \<Rightarrow> (jsstring \<rightharpoonup> attempt) \<Rightarrow> attempt reply \<times> (jsstring \<rightharpoonup> attempt)" where
  "post_attempts toStr cast now body store =
     (if body = JNull
      then (ReplyError 500 (lit ''Cannot destructure property of null''), store)
      else
        let i = attempt_key toStr body;
            doc = attempt_doc i now body (store i)
        in (case upsert_attempt cast doc store of
              Inl e \<Rightarrow> (ReplyError 500 e, store)
            | Inr (d, store') \<Rightarrow> (Reply200 d, store')))"

text \<open>
  Sample data for the examples: a stored attempt, and a later autosave for the same quiz
  and student. \<open>sample_toStr\<close> is the string conversion on strings (the identity) and
  on \<open>undefined\<close>, which is all the examples convert.
\<close>

definition sample_toStr :: "json option \<Rightarrow> jsstring" where
  "sample_toStr v = (case v of Some (JStr s) \<Rightarrow> s | _ \<Rightarrow> lit ''undefined'')"

definition sample_stored :: attempt where
  "sample_stored =
     \<lparr> attempt_id = lit ''quiz1::a@x.com'',
       quizId = Some (JStr (lit ''quiz1'')),
       email = Some (JStr (lit ''a@x.com'')),
       answers = [(lit ''q1'', JStr (lit ''A'')), (lit ''q2'', JStr (lit ''B''))],
       progress = [(lit ''p1'', JNum 5)],
       score = Some (JNum 1),
       totalQuestions = Some (JNum 3),
       submitted = Some (JBool True),
       submittedAt = 1000 \<rparr>"

definition sample_payload :: json where
  "sample_payload =
     JObj [(lit ''quizId'', JStr (lit ''quiz1'')),
           (lit ''email'', JStr (lit ''a@x.com'')),
           (lit ''answers'', JObj [(lit ''q1'', JStr (lit '' '')), (lit ''q2'', JStr (lit ''C'')),
                                  (lit ''q3'', JStr (lit ''E''))]),
           (lit ''q3'', JStr (lit ''D'')),
           (lit ''progress'', JObj [(lit ''p1'', JStr []), (lit ''p2'', JNull)]),
           (lit ''score'', JNum 0),
           (lit ''totalQuestions'', JNum 3),
           (lit ''submitted'', JBool False)]"

definition sample_store :: "jsstring \<rightharpoonup> attempt" where
  "sample_store = [lit ''quiz1::a@x.com'' \<mapsto> sample_stored]"

text \<open>
  The samples hold values of the schema's types, which are stored as they are, and one
  text that is no number, which the gateway's conversion refuses.
\<close>

definition sample_cast :: "schema_type \<Rightarrow> json \<Rightarrow> json option" where
  "sample_cast t v = None"

text \<open>
  Further autosaves of the same student: one that sets, inserts and skips progress
  entries and answers, one that names no score, total or submitted flag, one with
  entries under the key \<open>__proto__\<close>, and one whose score is a text that is no
  number.
\<close>

definition sample_autosave :: json where
  "sample_autosave =
     JObj [(lit ''quizId'', JStr (lit ''quiz1'')),
           (lit ''email'', JStr (lit ''a@x.com'')),
           (lit ''answers'', JObj [(lit ''q1'', JStr []), (lit ''q2'', JStr (lit ''C'')),
                                  (lit ''note'', JNum 4), (lit ''q4'', JNull)]),
           (lit ''progress'', JObj [(lit ''p1'', JNum 9), (lit ''p2'', JNull),
                                   (lit ''p3'', JStr (lit '' ''))])]"

definition sample_partial :: json where
  "sample_partial =
     JObj [(lit ''quizId'', JStr (lit ''quiz1'')),
           (lit ''email'', JStr (lit ''a@x.com'')),
           (lit ''answers'', JObj [(lit ''q2'', JStr (lit ''C''))])]"

definition sample_proto :: json where
  "sample_proto =
     JObj [(lit ''quizId'', JStr (lit ''quiz1'')),
           (lit ''email'', JStr (lit ''a@x.com'')),
           (lit ''answers'', JObj [(lit ''__proto__'', JStr (lit ''Z''))]),
           (lit ''progress'', JObj [(lit ''__proto__'', JNum 7)])]"

definition sample_badscore :: json where
  "sample_badscore =
     JObj [(lit ''quizId'', JStr (lit ''quiz1'')),
           (lit ''email'', JStr (lit ''a@x.com'')),
           (lit ''score'', JStr (lit ''high'')),
           (lit ''submitted'', JBool False)]"

section \<open>Reading a quiz: GET /api/quizzes/:id\<close>

text \<open>
  The stored quiz as the handler reads it: the document \<open>q.toObject()\<close> returns, the
  allow-list (absent when unset) and the path of the uploaded file (absent when unset).
\<close>

record quiz =
  quiz_object :: json
  allowedStudents :: "jsstring list option"
  filePath :: "jsstring option"

record quiz_payload =
  payload_quiz :: json
  payload_fileUrl :: json

text \<open>
  \<open>q.allowedStudents.includes(email)\<close>: the list holds strings, and \<open>includes\<close>
  compares with strict equality, so only a string can be a member.
\<close>

fun includes_email :: "jsstring list \<Rightarrow> json option \<Rightarrow> bool" where
  "includes_email l (Some (JStr s)) = (s \<in> set l)"
| "includes_email l _ = False"

text \<open>
  The handler. \<open>store\<close> is the quiz collection by id, \<open>qid\<close> is \<open>req.params.id\<close>,
  \<open>email_param\<close> is \<open>req.query.email\<close> (a string, or an array or object when the
  query repeats or nests the parameter), \<open>host\<close> is the origin the handler computes from
  the request, and \<open>basename\<close> is the host's \<open>path.basename\<close>.
\<close>

definition get_quiz ::
  "(jsstring \<Rightarrow> jsstring) \<Rightarrow> jsstring \<Rightarrow> (jsstring \<rightharpoonup> quiz) \<Rightarrow> jsstring \<Rightarrow> json option
     \<Rightarrow> quiz_payload reply" where
  "get_quiz basename host store qid email_param =
     (case store qid of
        None \<Rightarrow> ReplyError 404 (lit ''not found'')
      | Some q \<Rightarrow>
          if (case allowedStudents q of None \<Rightarrow> False | Some l \<Rightarrow> length l > 0)
             \<and> (\<not> truthy_opt email_param
                  \<or> \<not> includes_email (case allowedStudents q of None \<Rightarrow> [] | Some l \<Rightarrow> l) email_param)
          then ReplyError 403 (lit ''not allowed'')
          else Reply200
            \<lparr> payload_quiz = quiz_object q,
              payload_fileUrl =
                (case filePath q of
                   None \<Rightarrow> JNull
                 | Some p \<Rightarrow>
                     if p \<noteq> [] then JStr (host @ lit ''/server/uploads/'' @ basename p)
                     else JNull) \<rparr>)"

text \<open>Sample data: a quiz open to one student, and one whose allow-list holds the empty string.\<close>

definition sample_quiz :: quiz where
  "sample_quiz =
     \<lparr> quiz_object = JObj [(lit ''id'', JStr (lit ''quiz1''))],
       allowedStudents = Some [lit ''a@x.com''],
       filePath = None \<rparr>"

definition sample_quiz_blank :: quiz where
  "sample_quiz_blank =
     \<lparr> quiz_object = JObj [(lit ''id'', JStr (lit ''quiz2''))],
       allowedStudents = Some [lit ''a@x.com'', []],
       filePath = None \<rparr>"

text \<open>The samples have no file path, so \<open>basename\<close> is never applied to one.\<close>

definition ident_path :: "jsstring \<Rightarrow> jsstring" where
  "ident_path p = p"

definition sample_quizzes :: "jsstring \<rightharpoonup> quiz" where
  "sample_quizzes = [lit ''quiz1'' \<mapsto> sample_quiz, lit ''quiz2'' \<mapsto> sample_quiz_blank]"

section \<open>The chat log: POST /api/chats\<close>

text \<open>
  The timestamp of a chat is \<open>new Date(timestamp)\<close> of the payload's value, kept
  symbolic, or the clock reading of the call.
\<close>

datatype stamp = DateOf json | ClockAt time

record chat =
  chat_id :: json
  chat_role :: jsstring
  chat_text :: jsstring
  chat_meta :: "json option"
  chat_teacherId :: json
  chat_timestamp :: stamp

text \<open>\<open>typeof v === 'string' && v\<close>, when it is truthy: a string that is not empty.\<close>

fun filled_string :: "json option \<Rightarrow> jsstring option" where
  "filled_string (Some (JStr s)) = (if s \<noteq> [] then Some s else None)"
| "filled_string _ = None"

text \<open>\<open>v && v.k\<close> for a value \<open>v\<close> that may be \<open>undefined\<close>.\<close>

definition and_prop :: "json option \<Rightarrow> jsstring \<Rightarrow> json option" where
  "and_prop v k = (case v of None \<Rightarrow> None | Some x \<Rightarrow> if truthy x then get_prop x k else Some x)"

text \<open>\<open>a || b\<close>\<close>

definition js_or :: "json option \<Rightarrow> json option \<Rightarrow> json option" where
  "js_or a b = (if truthy_opt a then a else b)"

definition resolvedText :: "json \<Rightarrow> jsstring" where
  "resolvedText body =
     (case filled_string (get_prop body (lit ''text'')) of
        Some s \<Rightarrow> s
      | None \<Rightarrow>
     (case filled_string (get_prop body (lit ''content'')) of
        Some s \<Rightarrow> s
      | None \<Rightarrow>
     (case filled_string (and_prop (get_prop body (lit ''message'')) (lit ''content'')) of
        Some s \<Rightarrow> s
      | None \<Rightarrow>
     (case filled_string (and_prop (get_prop body (lit ''message'')) (lit ''text'')) of
        Some s \<Rightarrow> s
      | None \<Rightarrow> []))))"

definition effectiveRole :: "json \<Rightarrow> jsstring" where
  "effectiveRole body =
     (case filled_string (get_prop body (lit ''role'')) of
        Some s \<Rightarrow> s
      | None \<Rightarrow>
     (case filled_string (and_prop (get_prop body (lit ''message'')) (lit ''role'')) of
        Some s \<Rightarrow> s
      | None \<Rightarrow> lit ''user''))"

definition effectiveTeacherId :: "json \<Rightarrow> json option" where
  "effectiveTeacherId body =
     js_or (js_or (get_prop body (lit ''teacherId''))
                  (and_prop (get_prop body (lit ''message'')) (lit ''teacherId'')))
           (and_prop (get_prop body (lit ''meta'')) (lit ''teacherId''))"

text \<open>\<open>Date.now().toString(36)\<close>\<close>

definition digit36 :: "nat \<Rightarrow> 16 word" where
  "digit36 d = (if d < 10 then of_nat (48 + d) else of_nat (87 + d))"

function base36 :: "nat \<Rightarrow> jsstring" where
  "base36 n = (if n < 36 then [digit36 n] else base36 (n div 36) @ [digit36 (n mod 36)])"
  by pat_completeness auto
termination
  by (relation "measure id") auto

text \<open>
  The document the handler builds once the payload is accepted. The last branch, which
  attaches the raw payload when the text is empty, is kept as written; the check before
  it has already rejected an empty text.
\<close>

definition chat_doc :: "time \<Rightarrow> json \<Rightarrow> chat" where
  "chat_doc now body =
     \<lparr> chat_id =
         (case get_prop body (lit ''id'') of
            None \<Rightarrow> JStr (lit ''msg_'' @ base36 now)
          | Some v \<Rightarrow> if truthy v then v else JStr (lit ''msg_'' @ base36 now)),
       chat_role = effectiveRole body,
       chat_text = resolvedText body,
       chat_meta =
         (if resolvedText body = []
          then Some (JObj (fold (\<lambda>(k, v) acc. assign_prop k v acc)
                 ((case get_prop body (lit ''meta'') of
                     None \<Rightarrow> []
                   | Some m \<Rightarrow> if truthy m then own_props m else [])
                  @ [(lit ''raw'', body)]) []))
          else get_prop body (lit ''meta'')),
       chat_teacherId = (case effectiveTeacherId body of None \<Rightarrow> JNull | Some t \<Rightarrow> t),
       chat_timestamp =
         (case get_prop body (lit ''timestamp'') of
            None \<Rightarrow> ClockAt now
          | Some t \<Rightarrow> if truthy t then DateOf t else ClockAt now) \<rparr>"

text \<open>
  The stored chat, by the schema of the repository: \<open>id\<close>, \<open>role\<close>, \<open>text\<close>
  and \<open>teacherId\<close> are strings, \<open>meta\<close> is of the type \<open>Object\<close>,
  \<open>timestamp\<close> is a date.
\<close>

record stored_chat =
  sc_id :: jsstring
  sc_role :: jsstring
  sc_text :: jsstring
  sc_meta :: "json option"
  sc_teacherId :: json
  sc_timestamp :: time

text \<open>
  The upsert of a chat, by the contract of the gateway given above. \<open>toDate\<close> is the
  host's \<open>new Date(v)\<close>, with \<open>None\<close> for an invalid date, which the gateway
  refuses. The filter is \<open>{id: doc.id}\<close>, converted like the field.
\<close>

definition stamp_time :: "(json \<Rightarrow> time option) \<Rightarrow> stamp \<Rightarrow> time option" where
  "stamp_time toDate s = (case s of ClockAt t \<Rightarrow> Some t | DateOf v \<Rightarrow> toDate v)"

definition upsert_chat ::
  "(schema_type \<Rightarrow> json \<Rightarrow> json option) \<Rightarrow> (json \<Rightarrow> time option) \<Rightarrow> chat
     \<Rightarrow> (jsstring \<rightharpoonup> stored_chat) \<Rightarrow> jsstring + stored_chat \<times> (jsstring \<rightharpoonup> stored_chat)" where
  "upsert_chat cast toDate doc store =
     (case cast_value cast TString (chat_id doc) of
        Some (JStr key) \<Rightarrow>
          (case cast_value cast TString (chat_teacherId doc) of
             None \<Rightarrow> Inl (lit ''Cast to String failed'')
           | Some tid \<Rightarrow>
               (case stamp_time toDate (chat_timestamp doc) of
                  None \<Rightarrow> Inl (lit ''Cast to Date failed'')
                | Some ts \<Rightarrow>
                    let new =
                          \<lparr> sc_id = key,
                            sc_role = chat_role doc,
                            sc_text = chat_text doc,
                            sc_meta =
                              put_field (chat_meta doc)
                                (case store key of None \<Rightarrow> None | Some old \<Rightarrow> sc_meta old),
                            sc_teacherId = tid,
                            sc_timestamp = ts \<rparr>
                    in Inr (new, store(key \<mapsto> new))))
      | _ \<Rightarrow> Inl (lit ''Cast to String failed''))"

text \<open>
  The handler: it rejects a payload without a teacher or without a text, builds the
  document, hands it to the upsert and replies with the chat the upsert returns; an
  exception is caught and answered with 500.
\<close>

definition post_chats ::
  "(schema_type \<Rightarrow> json \<Rightarrow> json option) \<Rightarrow> (json \<Rightarrow> time option) \<Rightarrow> time \<Rightarrow> json
     \<Rightarrow> (jsstring \<rightharpoonup> stored_chat) \<Rightarrow> stored_chat reply \<times> (jsstring \<rightharpoonup> stored_chat)" where
  "post_chats cast toDate now body store =
     (if body = JNull
      then (ReplyError 500 (lit ''Cannot destructure property of null''), store)
      else if \<not> truthy_opt (effectiveTeacherId body)
      then (ReplyError 400 (lit ''teacherId required''), store)
      else if resolvedText body = [] \<or> trim (resolvedText body) = []
      then (ReplyError 400 (lit ''text/content required''), store)
      else
        (case upsert_chat cast toDate (chat_doc now body) store of
           Inl e \<Rightarrow> (ReplyError 500 e, store)
         | Inr (d, store') \<Rightarrow> (Reply200 d, store')))"

text \<open>
  Sample data: \<open>new Date(v)\<close> on the two timestamps of the examples, a number of
  milliseconds and a text that is no date; a message with a \<open>meta\<close>; a second
  message under the same id, without one; a message without an id; a message with the
  invalid timestamp.
\<close>

definition sample_toDate :: "json \<Rightarrow> time option" where
  "sample_toDate v = (if v = JNum 86400000 then Some 86400000 else None)"

definition sample_message1 :: json where
  "sample_message1 =
     JObj [(lit ''id'', JStr (lit ''m1'')), (lit ''text'', JStr (lit ''first'')),
           (lit ''teacherId'', JStr (lit ''t1'')),
           (lit ''meta'', JObj [(lit ''topic'', JStr (lit ''maths''))]),
           (lit ''timestamp'', JNum 86400000)]"

definition sample_message2 :: json where
  "sample_message2 =
     JObj [(lit ''id'', JStr (lit ''m1'')), (lit ''text'', JStr (lit ''second'')),
           (lit ''teacherId'', JStr (lit ''t1''))]"

definition sample_message3 :: json where
  "sample_message3 =
     JObj [(lit ''content'', JStr (lit ''third'')),
           (lit ''message'', JObj [(lit ''teacherId'', JStr (lit ''t1''))])]"

definition sample_message4 :: json where
  "sample_message4 =
     JObj [(lit ''id'', JStr (lit ''m4'')), (lit ''text'', JStr (lit ''fourth'')),
           (lit ''teacherId'', JStr (lit ''t1'')),
           (lit ''timestamp'', JStr (lit ''no date''))]"

text \<open>The chat collection after the first sample message was posted to an empty one.\<close>

definition sample_chats :: "jsstring \<rightharpoonup> stored_chat" where
  "sample_chats = snd (post_chats sample_cast sample_toDate 1000 sample_message1 Map.empty)"

section \<open>The response normalizer: parseJsonLenient\<close>

text \<open>
  Case-insensitive matching of a regular expression without the \<open>u\<close> flag compares
  upper-cased code units, and never lets a code unit above 127 match an ASCII one; for
  the ASCII letters of the patterns below this is equality after \<open>lower\<close>.
\<close>

definition lower :: "16 word \<Rightarrow> 16 word" where
  "lower c = (if 0x41 \<le> c \<and> c \<le> 0x5A then c + 0x20 else c)"

definition starts_with :: "jsstring \<Rightarrow> jsstring \<Rightarrow> bool" where
  "starts_with p s = (take (length p) s = p)"

definition starts_with_ci :: "jsstring \<Rightarrow> jsstring \<Rightarrow> bool" where
  "starts_with_ci p s = (map lower (take (length p) s) = map lower p)"

definition ends_with :: "jsstring \<Rightarrow> jsstring \<Rightarrow> bool" where
  "ends_with p s = (length p \<le> length s \<and> drop (length s - length p) s = p)"

text \<open>
  \<open>stripCodeFences\<close>: the first replacement removes, at the start of the text, three
  backticks, an optional tag \<open>html\<close> or \<open>json\<close> in any case, and the whitespace
  after them; the second removes three backticks at the very end.
\<close>

definition stripCodeFences :: "jsstring \<Rightarrow> jsstring" where
  "stripCodeFences s =
     (if s = [] then s
      else
        let a = (if starts_with (lit ''```'') s
                 then let r = drop 3 s;
                          r' = (if starts_with_ci (lit ''html'') r \<or> starts_with_ci (lit ''json'') r
                                then drop 4 r else r)
                      in dropWhile is_ws r'
                 else s)
        in if ends_with (lit ''```'') a then take (length a - 3) a else a)"

text \<open>
  The third strategy: typographic double quotes become \<open>"\<close>, typographic single
  quotes become \<open>'\<close>, the control characters U+0000..U+001F and U+007F..U+009F are
  removed; then the slice from the first \<open>{\<close> to the last \<open>}\<close>, when both exist
  and the last \<open>}\<close> is behind the first \<open>{\<close>.
\<close>

definition is_control :: "16 word \<Rightarrow> bool" where
  "is_control c \<longleftrightarrow> c \<le> 0x1F \<or> (0x7F \<le> c \<and> c \<le> 0x9F)"

definition clean_text :: "jsstring \<Rightarrow> jsstring" where
  "clean_text text =
     filter (\<lambda>c. \<not> is_control c)
       (map (\<lambda>c. if c = 0x2018 \<or> c = 0x2019 then 0x27 else c)
          (map (\<lambda>c. if c = 0x201C \<or> c = 0x201D then 0x22 else c) text))"

fun indexOf :: "16 word \<Rightarrow> jsstring \<Rightarrow> nat option" where
  "indexOf c [] = None"
| "indexOf c (x # xs) = (if x = c then Some 0 else map_option Suc (indexOf c xs))"

definition lastIndexOf :: "16 word \<Rightarrow> jsstring \<Rightarrow> nat option" where
  "lastIndexOf c s = map_option (\<lambda>j. length s - 1 - j) (indexOf c (rev s))"

definition braces_candidate :: "jsstring \<Rightarrow> jsstring option" where
  "braces_candidate text =
     (let t = clean_text text in
      case indexOf 0x7B t of
        None \<Rightarrow> None
      | Some first_i \<Rightarrow>
          (case lastIndexOf 0x7D t of
             None \<Rightarrow> None
           | Some last_i \<Rightarrow>
               if last_i > first_i then Some (take (last_i + 1 - first_i) (drop first_i t))
               else None))"

text \<open>
  The fourth strategy, the match of \<open>/```json([\s\S]*?)```/i\<close>: the text behind the
  leftmost \<open>```json\<close> (in any case), up to the first \<open>```\<close> behind it. Without a
  closing fence behind the leftmost tag there is none behind a later tag either, and
  the expression does not match.
\<close>

fun after_ci :: "jsstring \<Rightarrow> jsstring \<Rightarrow> jsstring option" where
  "after_ci p [] = (if p = [] then Some [] else None)"
| "after_ci p (x # xs) =
     (if starts_with_ci p (x # xs) then Some (drop (length p) (x # xs)) else after_ci p xs)"

fun before_first :: "jsstring \<Rightarrow> jsstring \<Rightarrow> jsstring option" where
  "before_first p [] = (if p = [] then Some [] else None)"
| "before_first p (x # xs) =
     (if starts_with p (x # xs) then Some [] else map_option ((#) x) (before_first p xs))"

definition fenced_candidate :: "jsstring \<Rightarrow> jsstring option" where
  "fenced_candidate text =
     (case after_ci (lit ''```json'') text of
        None \<Rightarrow> None
      | Some rest \<Rightarrow> before_first (lit ''```'') rest)"

text \<open>
  One \<open>try\<close> block: when the strategy has a candidate text, \<open>JSON.parse\<close> is called
  on it; \<open>parse\<close> is the host's \<open>JSON.parse\<close>, with \<open>None\<close> for the exception it
  throws on a text that is not JSON. The log lists the texts handed to \<open>JSON.parse\<close>
  so far.
\<close>

definition try_parse ::
  "(jsstring \<Rightarrow> json option) \<Rightarrow> jsstring option \<Rightarrow> jsstring list \<Rightarrow> json option \<times> jsstring list" where
  "try_parse parse candidate calls =
     (case candidate of None \<Rightarrow> (None, calls) | Some c \<Rightarrow> (parse c, calls @ [c]))"

text \<open>
  \<open>parseJsonLenient\<close>: the value it returns (\<open>null\<close> when nothing parsed), with the
  log of the calls of \<open>JSON.parse\<close> it made.
\<close>

definition parseJsonLenient ::
  "(jsstring \<Rightarrow> json option) \<Rightarrow> jsstring \<Rightarrow> json \<times> jsstring list" where
  "parseJsonLenient parse text =
     (if text = [] then (JNull, [])
      else
        case try_parse parse (Some text) [] of
          (Some v, l1) \<Rightarrow> (v, l1)
        | (None, l1) \<Rightarrow>
        (case try_parse parse (Some (stripCodeFences text)) l1 of
          (Some v, l2) \<Rightarrow> (v, l2)
        | (None, l2) \<Rightarrow>
        (case try_parse parse (braces_candidate text) l2 of
          (Some v, l3) \<Rightarrow> (v, l3)
        | (None, l3) \<Rightarrow>
        (case try_parse parse (fenced_candidate text) l3 of
          (Some v, l4) \<Rightarrow> (v, l4)
        | (None, l4) \<Rightarrow> (JNull, l4)))))"

text \<open>
  The contract in the words of the specification: the strategies are attempted in
  order, stopping at the first success. A strategy is its candidate text, if it has one;
  the log lists the candidates handed to \<open>JSON.parse\<close>.
\<close>

fun first_success ::
  "(jsstring \<Rightarrow> json option) \<Rightarrow> jsstring option list \<Rightarrow> jsstring list \<Rightarrow> json option \<times> jsstring list" where
  "first_success parse [] calls = (None, calls)"
| "first_success parse (None # cs) calls = first_success parse cs calls"
| "first_success parse (Some c # cs) calls =
     (case parse c of
        Some v \<Rightarrow> (Some v, calls @ [c])
      | None \<Rightarrow> first_success parse cs (calls @ [c]))"

section \<open>The parse endpoints: POST /api/parse-image and POST /api/parse-pdf\<close>

text \<open>
  The text sent for a question: \<open>q.question || q.prompt\<close>, when it is truthy.
\<close>

definition hint_content :: "json \<Rightarrow> json option" where
  "hint_content q =
     (case js_or (get_prop q (lit ''question'')) (get_prop q (lit ''prompt'')) of
        None \<Rightarrow> None
      | Some t \<Rightarrow> if truthy t then Some t else None)"

text \<open>The assignment \<open>v.k = x\<close> on an object.\<close>

fun set_prop :: "json \<Rightarrow> jsstring \<Rightarrow> json \<Rightarrow> json" where
  "set_prop (JObj kvs) k x = JObj (AList.update k x kvs)"
| "set_prop v k x = v"

text \<open>
  The loop over \<open>quizData.questions\<close>. \<open>client n t\<close> is the outcome of the hint call
  that is the \<open>n\<close>-th of the request and sends the text \<open>t\<close>: \<open>Inl\<close> when
  \<open>callOpenAI\<close> throws, \<open>Inr\<close> with the content it returns. The loop returns the
  texts it sent, in order, and either the questions with their hints or the message of
  the exception that left it: reading \<open>q.question\<close> of an element \<open>null\<close> throws.
\<close>

fun hint_loop ::
  "(nat \<Rightarrow> json \<Rightarrow> jsstring + jsstring) \<Rightarrow> nat \<Rightarrow> json list \<Rightarrow> json list \<times> (jsstring + json list)" where
  "hint_loop client n [] = ([], Inr [])"
| "hint_loop client n (q # qs) =
     (if q = JNull then ([], Inl (lit ''Cannot read properties of null (reading 'question')''))
      else
        case hint_content q of
          None \<Rightarrow>
            (case hint_loop client n qs of (sent, r) \<Rightarrow> (sent, map_sum id ((#) q) r))
        | Some t \<Rightarrow>
            let hint = (case client n t of Inl e \<Rightarrow> [] | Inr h \<Rightarrow> trim h);
                q' = set_prop q (lit ''hint'') (JStr hint)
            in (case hint_loop client (Suc n) qs of
                  (sent, r) \<Rightarrow> (t # sent, map_sum id ((#) q') r)))"

text \<open>
  The handler of both endpoints, which differ in the extractor only. \<open>has_file\<close> says
  whether a file was uploaded, \<open>extracted\<close> is the outcome of the text extraction and
  \<open>generated\<close> the outcome of the generation call (\<open>Inl\<close> the message of the
  exception). The prompt the handler builds from the extracted text, cut to 6000 code
  units, and the teacher's instructions reaches the reply only through that outcome.
  The handler returns its reply and the texts sent for hints.
\<close>

definition parse_upload ::
  "(jsstring \<Rightarrow> json option) \<Rightarrow> (nat \<Rightarrow> json \<Rightarrow> jsstring + jsstring) \<Rightarrow> bool
     \<Rightarrow> jsstring + jsstring \<Rightarrow> jsstring + jsstring \<Rightarrow> json reply \<times> json list" where
  "parse_upload parse client has_file extracted generated =
     (if \<not> has_file then (ReplyError 400 (lit ''No file uploaded''), [])
      else
        case extracted of
          Inl e \<Rightarrow> (ReplyError 500 e, [])
        | Inr text \<Rightarrow>
        (case generated of
          Inl e \<Rightarrow> (ReplyError 500 e, [])
        | Inr aiResponse \<Rightarrow>
            let quizData = fst (parseJsonLenient parse aiResponse) in
            if \<not> truthy quizData \<or> \<not> typeof_object quizData
            then (Reply422 (lit ''OpenAI did not return valid JSON'') (take 4000 aiResponse), [])
            else
              (case get_prop quizData (lit ''questions'') of
                 Some (JArr qs) \<Rightarrow>
                   (case hint_loop client 0 qs of
                      (sent, Inl e) \<Rightarrow> (ReplyError 500 e, sent)
                    | (sent, Inr qs') \<Rightarrow>
                        (Reply200 (set_prop quizData (lit ''questions'') (JArr qs')), sent))
               | _ \<Rightarrow> (Reply200 quizData, []))))"

text \<open>
  Sample data. \<open>sample_parse\<close> is \<open>JSON.parse\<close> on the texts of the examples; every
  other text the examples hand to it is not JSON. \<open>sample_client\<close> fails on the first
  hint call and answers the later ones.
\<close>

definition sample_parse :: "jsstring \<Rightarrow> json option" where
  \<open>sample_parse t =
     (if t = lit ''[]'' then Some (JArr [])
      else if t = lit '' []'' then Some (JArr [])
      else if t = lit ''{"a":"b"}'' then Some (JObj [(lit ''a'', JStr (lit ''b''))])
      else if t = lit ''{"questions":[null,{"question":"x"}]}''
      then Some (JObj [(lit ''questions'',
                  JArr [JNull, JObj [(lit ''question'', JStr (lit ''x''))]])])
      else if t = lit ''{"questions":[{"question":"a"},{"id":"2"},{"prompt":"b"}]}''
      then Some (JObj [(lit ''questions'',
                  JArr [JObj [(lit ''question'', JStr (lit ''a''))],
                        JObj [(lit ''id'', JStr (lit ''2''))],
                        JObj [(lit ''prompt'', JStr (lit ''b''))]])])
      else None)\<close>

text \<open>
  Three raw texts: an array in a fence tagged \<open>json\<close>; an object written with
  typographic quotes, with the control character U+0007 in it and prose around it; and a
  block tagged \<open>JSON\<close> followed by braces in the wrong order.
\<close>

definition sample_fenced_text :: jsstring where
  "sample_fenced_text = lit ''```json []```''"

definition sample_smart_text :: jsstring where
  "sample_smart_text =
     lit ''Quiz: {'' @ [0x201C] @ lit ''a'' @ [0x201D] @ lit '':'' @ [0x201C] @ lit ''b''
       @ [0x201D, 0x07] @ lit ''} done''"

definition sample_block_text :: jsstring where
  "sample_block_text = lit ''```JSON []``` }{''"

definition sample_client :: "nat \<Rightarrow> json \<Rightarrow> jsstring + jsstring" where
  "sample_client n t = (if n = 0 then Inl (lit ''OpenAI API error (500)'') else Inr (lit '' Think. ''))"

text \<open>A client whose hint calls all succeed.\<close>

definition sample_client_ok :: "nat \<Rightarrow> json \<Rightarrow> jsstring + jsstring" where
  "sample_client_ok n t = Inr (lit ''Think.'')"

section \<open>Properties of the merge engine\<close>

declare dec.simps [simp del]

lemma digit_unat: "d < 10 \<Longrightarrow> unat (digit d) = 48 + d"
  unfolding digit_def by (rule of_nat_inverse) simp_all

lemma undec_dec: "undec (dec n) = n"
proof (induction n rule: dec.induct)
  case (1 n)
  show ?case
  proof (cases "n < 10")
    case True
    then show ?thesis
      by (subst dec.simps) (simp add: undec_def digit_unat)
  next
    case False
    with 1 have IH: "undec (dec (n div 10)) = n div 10" by simp
    have "undec (dec n) = 10 * undec (dec (n div 10)) + (unat (digit (n mod 10)) - 48)"
      using False by (subst dec.simps) (simp add: undec_def)
    also have "\<dots> = 10 * (n div 10) + n mod 10"
      by (simp add: IH digit_unat)
    finally show ?thesis by simp
  qed
qed

lemma inj_dec: "inj dec"
  by (rule inj_on_inverseI[where g = undec]) (rule undec_dec)

lemma distinct_own_props: "distinct (map fst (own_props v))"
proof (cases v)
  case (JArr xs)
  have "distinct (map dec [0..<length xs])"
    by (simp add: distinct_map inj_on_subset[OF inj_dec])
  then show ?thesis using JArr by simp
next
  case (JStr s)
  have "distinct (map dec [0..<length s])"
    by (simp add: distinct_map inj_on_subset[OF inj_dec])
  then show ?thesis using JStr by simp
qed simp_all

lemma distinct_fold_update:
  assumes f: "\<And>k v m. f (k, v) m = (if P k v then AList.update k v m else m)"
  shows "distinct (map fst acc) \<Longrightarrow> distinct (map fst (fold f ps acc))"
  by (induction ps arbitrary: acc) (auto simp: f distinct_update)

lemma map_of_fold_update:
  assumes f: "\<And>k v m. f (k, v) m = (if P k v then AList.update k v m else m)"
  shows "distinct (map fst ps) \<Longrightarrow>
   map_of (fold f ps acc) k =
     (case map_of ps k of
        None \<Rightarrow> map_of acc k
      | Some v \<Rightarrow> if P k v then Some v else map_of acc k)"
proof (induction ps arbitrary: acc)
  case Nil
  then show ?case by simp
next
  case (Cons p ps)
  obtain k' v' where p: "p = (k', v')" by (cases p)
  from Cons.prems p have notin: "map_of ps k' = None" and d: "distinct (map fst ps)"
    by (auto simp: map_of_eq_None_iff)
  show ?case
    using Cons.IH[OF d] notin p
    by (auto simp: f update_conv' split: option.splits)
qed

lemma fold_update_fixed:
  assumes f: "\<And>k v m. f (k, v) m = (if P k v then AList.update k v m else m)"
    and fixed: "\<And>k v. (k, v) \<in> set ps \<Longrightarrow> P k v \<Longrightarrow> map_of acc k = Some v"
  shows "fold f ps acc = acc"
  using fixed by (induction ps) (auto simp: f update_triv)


lemma assign_prop_step:
  "assign_prop k v m = (if k \<noteq> lit ''__proto__'' then AList.update k v m else m)"
  by (simp add: assign_prop_def)

lemma keys_fold_update:
  assumes f: "\<And>k v m. f (k, v) m = (if P k v then AList.update k v m else m)"
    and z: "\<And>v. \<not> P z v"
  shows "z \<notin> fst ` set acc \<Longrightarrow> z \<notin> fst ` set (fold f ps acc)"
proof (induction ps arbitrary: acc)
  case Nil
  then show ?case by simp
next
  case (Cons p ps)
  obtain k v where p: "p = (k, v)" by (cases p)
  have "z \<notin> fst ` set (f (k, v) acc)"
    using Cons.prems z[of v] by (auto simp: f dom_update)
  from Cons.IH[OF this] p show ?case by simp
qed

lemma update_fresh: "k \<notin> fst ` set al \<Longrightarrow> AList.update k v al = al @ [(k, v)]"
  by (induction al) auto

lemma fold_assign_append:
  "distinct (map fst xs) \<Longrightarrow> fst ` set xs \<inter> fst ` set acc = {} \<Longrightarrow>
   lit ''__proto__'' \<notin> fst ` set xs \<Longrightarrow>
   fold (\<lambda>(k, v) acc. assign_prop k v acc) xs acc = acc @ xs"
proof (induction xs arbitrary: acc)
  case Nil
  then show ?case by simp
next
  case (Cons p xs)
  obtain k v where p: "p = (k, v)" by (cases p)
  from Cons.prems p have k: "k \<notin> fst ` set acc" "k \<noteq> lit ''__proto__''" "k \<notin> fst ` set xs"
    by auto
  have step: "assign_prop k v acc = acc @ [(k, v)]"
    using k by (simp add: assign_prop_def update_fresh)
  have "fold (\<lambda>(k, v) acc. assign_prop k v acc) xs (acc @ [(k, v)]) = (acc @ [(k, v)]) @ xs"
    using Cons.prems p k by (intro Cons.IH) auto
  with step p show ?case by simp
qed

lemma distinct_object_assign: "distinct (map fst (object_assign src))"
  unfolding object_assign_def
  by (rule distinct_fold_update[where P = "\<lambda>k v. k \<noteq> lit ''__proto__''"])
     (simp_all add: assign_prop_def)

lemma map_of_object_assign:
  "map_of (object_assign src) k = (if k = lit ''__proto__'' then None else map_of src k)"
proof -
  have "map_of (object_assign src) k =
      (case map_of (AList.clearjunk src) k of
         None \<Rightarrow> map_of [] k
       | Some v \<Rightarrow> if k \<noteq> lit ''__proto__'' then Some v else map_of [] k)"
    unfolding object_assign_def
    by (rule map_of_fold_update[OF _ distinct_clearjunk]) (simp add: assign_prop_def)
  then show ?thesis by (simp add: map_of_clearjunk split: option.splits)
qed

lemma no_proto_object_assign: "lit ''__proto__'' \<notin> fst ` set (object_assign src)"
  unfolding object_assign_def
  by (rule keys_fold_update[where P = "\<lambda>k v. k \<noteq> lit ''__proto__''"])
     (simp_all add: assign_prop_def)

lemma object_assign_id:
  "distinct (map fst xs) \<Longrightarrow> lit ''__proto__'' \<notin> fst ` set xs \<Longrightarrow> object_assign xs = xs"
  unfolding object_assign_def
  using fold_assign_append[of xs "[]"] by simp

lemma distinct_stored: "distinct (map fst (stored_answers ex))" "distinct (map fst (stored_progress ex))"
  by (simp_all add: stored_answers_def stored_progress_def distinct_object_assign split: option.splits)

lemma no_proto_stored:
  "lit ''__proto__'' \<notin> fst ` set (stored_answers ex)"
  "lit ''__proto__'' \<notin> fst ` set (stored_progress ex)"
  by (cases ex; simp add: stored_answers_def stored_progress_def no_proto_object_assign)+

lemma map_of_nested_answers:
  "map_of (nested_answers incoming) k =
     (case get_prop incoming (lit ''answers'') of
        None \<Rightarrow> None
      | Some a \<Rightarrow>
          if truthy a \<and> typeof_object a \<and> k \<noteq> lit ''__proto__'' then map_of (own_props a) k
          else None)"
proof (cases "get_prop incoming (lit ''answers'')")
  case None
  then show ?thesis by (simp add: nested_answers_def)
next
  case (Some a)
  have "map_of (fold (\<lambda>(k, v) acc. assign_prop k v acc) (own_props a) []) k =
      (case map_of (own_props a) k of
         None \<Rightarrow> map_of [] k
       | Some v \<Rightarrow> if k \<noteq> lit ''__proto__'' then Some v else map_of [] k)"
    by (rule map_of_fold_update[OF _ distinct_own_props]) (simp add: assign_prop_def)
  then have "map_of (fold (\<lambda>(k, v) acc. assign_prop k v acc) (own_props a) []) k =
      (if k \<noteq> lit ''__proto__'' then map_of (own_props a) k else None)"
    by (simp split: option.splits)
  with Some show ?thesis
    by (auto simp: nested_answers_def)
qed

lemma distinct_incomingAnswers: "distinct (map fst (incomingAnswers incoming))"
proof -
  have "distinct (map fst (nested_answers incoming))"
    unfolding nested_answers_def
    by (auto split: option.splits simp: assign_prop_def
        intro!: distinct_fold_update[where P = "\<lambda>k v. k \<noteq> lit ''__proto__''"])
  then show ?thesis
    unfolding incomingAnswers_def
    by (rule distinct_fold_update[where P = "\<lambda>k v. question_key k", rotated]) simp
qed

lemma distinct_incomingProgress: "distinct (map fst (incomingProgress incoming))"
  unfolding incomingProgress_def
  by (auto split: option.splits simp: distinct_own_props)

lemma map_of_mergedAnswers:
  assumes "distinct (map fst inc)"
  shows "map_of (mergedAnswers stored inc) k =
     (case map_of inc k of
        None \<Rightarrow> map_of stored k
      | Some v \<Rightarrow>
          if v = JNull \<or> blank_string v \<or> k = lit ''__proto__'' then map_of stored k else Some v)"
proof -
  have "map_of (mergedAnswers stored inc) k =
     (case map_of inc k of
        None \<Rightarrow> map_of stored k
      | Some v \<Rightarrow>
          if v \<noteq> JNull \<and> \<not> blank_string v \<and> k \<noteq> lit ''__proto__'' then Some v
          else map_of stored k)"
    unfolding mergedAnswers_def
    by (rule map_of_fold_update[OF _ assms]) (simp add: assign_prop_def)
  then show ?thesis by (simp split: option.splits)
qed

lemma map_of_mergedProgress:
  assumes "distinct (map fst inc)"
  shows "map_of (mergedProgress stored inc) k =
     (case map_of inc k of
        None \<Rightarrow> map_of stored k
      | Some v \<Rightarrow> if v = JNull \<or> k = lit ''__proto__'' then map_of stored k else Some v)"
proof -
  have "map_of (mergedProgress stored inc) k =
     (case map_of inc k of
        None \<Rightarrow> map_of stored k
      | Some v \<Rightarrow> if v \<noteq> JNull \<and> k \<noteq> lit ''__proto__'' then Some v else map_of stored k)"
    unfolding mergedProgress_def
    by (rule map_of_fold_update[OF _ assms]) (simp add: assign_prop_def)
  then show ?thesis by (simp split: option.splits)
qed

lemma merged_invariants:
  assumes "distinct (map fst stored)" "lit ''__proto__'' \<notin> fst ` set stored"
  shows "distinct (map fst (mergedAnswers stored inc))"
    and "lit ''__proto__'' \<notin> fst ` set (mergedAnswers stored inc)"
    and "distinct (map fst (mergedProgress stored inc))"
    and "lit ''__proto__'' \<notin> fst ` set (mergedProgress stored inc)"
proof -
  show "distinct (map fst (mergedAnswers stored inc))"
    unfolding mergedAnswers_def
    by (rule distinct_fold_update[where
          P = "\<lambda>k v. v \<noteq> JNull \<and> \<not> blank_string v \<and> k \<noteq> lit ''__proto__''", OF _ assms(1)])
       (simp add: assign_prop_def)
  show "lit ''__proto__'' \<notin> fst ` set (mergedAnswers stored inc)"
    unfolding mergedAnswers_def
    by (rule keys_fold_update[where
          P = "\<lambda>k v. v \<noteq> JNull \<and> \<not> blank_string v \<and> k \<noteq> lit ''__proto__''", OF _ _ assms(2)])
       (simp_all add: assign_prop_def)
  show "distinct (map fst (mergedProgress stored inc))"
    unfolding mergedProgress_def
    by (rule distinct_fold_update[where
          P = "\<lambda>k v. v \<noteq> JNull \<and> k \<noteq> lit ''__proto__''", OF _ assms(1)])
       (simp add: assign_prop_def)
  show "lit ''__proto__'' \<notin> fst ` set (mergedProgress stored inc)"
    unfolding mergedProgress_def
    by (rule keys_fold_update[where
          P = "\<lambda>k v. v \<noteq> JNull \<and> k \<noteq> lit ''__proto__''", OF _ _ assms(2)])
       (simp_all add: assign_prop_def)
qed

lemma mergedAnswers_twice:
  assumes "distinct (map fst inc)"
  shows "mergedAnswers (mergedAnswers stored inc) inc = mergedAnswers stored inc"
proof -
  have "\<And>k v. (k, v) \<in> set inc \<Longrightarrow> v \<noteq> JNull \<and> \<not> blank_string v \<and> k \<noteq> lit ''__proto__'' \<Longrightarrow>
          map_of (mergedAnswers stored inc) k = Some v"
    using assms by (simp add: map_of_mergedAnswers)
  then show ?thesis
    by (subst mergedAnswers_def)
       (rule fold_update_fixed[where
           P = "\<lambda>k v. v \<noteq> JNull \<and> \<not> blank_string v \<and> k \<noteq> lit ''__proto__''"],
        simp_all add: assign_prop_def)
qed

lemma mergedProgress_twice:
  assumes "distinct (map fst inc)"
  shows "mergedProgress (mergedProgress stored inc) inc = mergedProgress stored inc"
proof -
  have "\<And>k v. (k, v) \<in> set inc \<Longrightarrow> v \<noteq> JNull \<and> k \<noteq> lit ''__proto__'' \<Longrightarrow>
          map_of (mergedProgress stored inc) k = Some v"
    using assms by (simp add: map_of_mergedProgress)
  then show ?thesis
    by (subst mergedProgress_def)
       (rule fold_update_fixed[where P = "\<lambda>k v. v \<noteq> JNull \<and> k \<noteq> lit ''__proto__''"],
        simp_all add: assign_prop_def)
qed

lemma question_key_not_length: "question_key k \<Longrightarrow> k \<noteq> lit ''length''"
  by (auto simp: question_key_def lit_def)

lemma question_key_not_proto: "question_key k \<Longrightarrow> k \<noteq> lit ''__proto__''"
  by (auto simp: question_key_def lit_def)

lemma get_prop_own_props: "k \<noteq> lit ''length'' \<Longrightarrow> get_prop v k = map_of (own_props v) k"
  by (cases v) (simp_all add: map_of_clearjunk)

lemma map_of_incomingAnswers:
  "map_of (incomingAnswers incoming) k =
     (case map_of (own_props incoming) k of
        None \<Rightarrow> map_of (nested_answers incoming) k
      | Some v \<Rightarrow> if question_key k then Some v else map_of (nested_answers incoming) k)"
  unfolding incomingAnswers_def
  by (rule map_of_fold_update[OF _ distinct_own_props]) simp

lemma own_value:
  "(case a of JObj kvs \<Rightarrow> map_of kvs k | JArr xs \<Rightarrow> map_of (own_props (JArr xs)) k | _ \<Rightarrow> None)
     = (if truthy a \<and> typeof_object a then map_of (own_props a) k else None)"
  by (cases a) (simp_all add: map_of_clearjunk)

lemma map_of_stored:
  "k \<noteq> lit ''__proto__'' \<Longrightarrow> map_of (stored_answers (Some e)) k = map_of (answers e) k"
  "k \<noteq> lit ''__proto__'' \<Longrightarrow> map_of (stored_progress (Some e)) k = map_of (progress e) k"
  by (simp_all add: stored_answers_def stored_progress_def map_of_object_assign)

subsection \<open>The per-key rules\<close>

text \<open>
  Claim C4, as the code has it, for every key other than \<open>__proto__\<close>. The merged
  \<open>answers\<close> start from the stored answers, which are empty without a prior record
  and hold the entries of the stored record otherwise. The incoming answer under a key
  is the payload's top-level value when the key is a question key the payload has, and
  the entry of the payload's \<open>answers\<close> object otherwise. Without an incoming
  answer the key keeps its stored entry; an incoming \<open>null\<close> or a string of only
  whitespace is skipped; any other incoming value is the merged value. \<open>progress\<close>
  follows the same rules on the entries of the payload's \<open>progress\<close> object, except
  that only \<open>null\<close> is skipped.
\<close>

theorem attempt_merge_rules:
  assumes "k \<noteq> lit ''__proto__''"
  shows "map_of (answers (attempt_doc i now incoming existing)) k =
     (case (if question_key k \<and> get_prop incoming k \<noteq> None then get_prop incoming k
            else case get_prop incoming (lit ''answers'') of
                   None \<Rightarrow> None
                 | Some a \<Rightarrow>
                     (case a of
                        JObj kvs \<Rightarrow> map_of kvs k
                      | JArr xs \<Rightarrow> map_of (own_props (JArr xs)) k
                      | _ \<Rightarrow> None)) of
        None \<Rightarrow> map_of (stored_answers existing) k
      | Some v \<Rightarrow>
          if v = JNull \<or> blank_string v then map_of (stored_answers existing) k else Some v)
   \<and> map_of (progress (attempt_doc i now incoming existing)) k =
     (case (case get_prop incoming (lit ''progress'') of
              None \<Rightarrow> None
            | Some p \<Rightarrow>
                (case p of
                   JObj kvs \<Rightarrow> map_of kvs k
                 | JArr xs \<Rightarrow> map_of (own_props (JArr xs)) k
                 | _ \<Rightarrow> None)) of
        None \<Rightarrow> map_of (stored_progress existing) k
      | Some v \<Rightarrow> if v = JNull then map_of (stored_progress existing) k else Some v)
   \<and> map_of (stored_answers None) k = None
   \<and> map_of (stored_progress None) k = None
   \<and> map_of (stored_answers (Some e)) k = map_of (answers e) k
   \<and> map_of (stored_progress (Some e)) k = map_of (progress e) k"
proof -
  have inc: "map_of (incomingAnswers incoming) k =
      (if question_key k \<and> get_prop incoming k \<noteq> None then get_prop incoming k
       else case get_prop incoming (lit ''answers'') of
              None \<Rightarrow> None
            | Some a \<Rightarrow>
                (case a of
                   JObj kvs \<Rightarrow> map_of kvs k
                 | JArr xs \<Rightarrow> map_of (own_props (JArr xs)) k
                 | _ \<Rightarrow> None))"
  proof (cases "question_key k")
    case True
    then have "get_prop incoming k = map_of (own_props incoming) k"
      by (simp add: get_prop_own_props question_key_not_length)
    with True assms show ?thesis
      by (auto simp: map_of_incomingAnswers map_of_nested_answers own_value
          split: option.splits)
  next
    case False
    with assms show ?thesis
      by (auto simp: map_of_incomingAnswers map_of_nested_answers own_value
          split: option.splits)
  qed
  have prog: "map_of (incomingProgress incoming) k =
      (case get_prop incoming (lit ''progress'') of
         None \<Rightarrow> None
       | Some p \<Rightarrow>
           (case p of
              JObj kvs \<Rightarrow> map_of kvs k
            | JArr xs \<Rightarrow> map_of (own_props (JArr xs)) k
            | _ \<Rightarrow> None))"
    by (simp add: incomingProgress_def own_value split: option.splits)
  have a: "map_of (answers (attempt_doc i now incoming existing)) k =
      (case map_of (incomingAnswers incoming) k of
         None \<Rightarrow> map_of (stored_answers existing) k
       | Some v \<Rightarrow>
           if v = JNull \<or> blank_string v then map_of (stored_answers existing) k else Some v)"
    using assms
    by (simp add: attempt_doc_def map_of_mergedAnswers[OF distinct_incomingAnswers]
        split: option.splits)
  have p: "map_of (progress (attempt_doc i now incoming existing)) k =
      (case map_of (incomingProgress incoming) k of
         None \<Rightarrow> map_of (stored_progress existing) k
       | Some v \<Rightarrow> if v = JNull then map_of (stored_progress existing) k else Some v)"
    using assms
    by (simp add: attempt_doc_def map_of_mergedProgress[OF distinct_incomingProgress]
        split: option.splits)
  have s: "map_of (stored_answers None) k = None \<and> map_of (stored_progress None) k = None"
    by (simp add: stored_answers_def stored_progress_def)
  show ?thesis
    using a p s map_of_stored[OF assms, of e]
    by (simp only: inc prog)
qed

text \<open>
  An autosave over the stored sample: the blank \<open>q1\<close> is skipped, \<open>q2\<close> is
  overwritten, \<open>note\<close> is inserted, the \<open>null\<close> under \<open>q4\<close> inserts nothing;
  the progress \<open>p1\<close> is overwritten, the \<open>null\<close> under \<open>p2\<close> inserts nothing
  and the blank \<open>p3\<close> is inserted. The example of the specification: stored
  \<open>p1: 5\<close> survives an incoming \<open>p1: null\<close>.
\<close>

theorem attempt_merge_rules_witness:
  "map_of (answers (attempt_doc (lit ''quiz1::a@x.com'') 2000 sample_autosave (Some sample_stored)))
       (lit ''q1'') = Some (JStr (lit ''A''))
   \<and> map_of (answers (attempt_doc (lit ''quiz1::a@x.com'') 2000 sample_autosave (Some sample_stored)))
       (lit ''q2'') = Some (JStr (lit ''C''))
   \<and> map_of (answers (attempt_doc (lit ''quiz1::a@x.com'') 2000 sample_autosave (Some sample_stored)))
       (lit ''note'') = Some (JNum 4)
   \<and> map_of (answers (attempt_doc (lit ''quiz1::a@x.com'') 2000 sample_autosave (Some sample_stored)))
       (lit ''q4'') = None
   \<and> map_of (progress (attempt_doc (lit ''quiz1::a@x.com'') 2000 sample_autosave (Some sample_stored)))
       (lit ''p1'') = Some (JNum 9)
   \<and> map_of (progress (attempt_doc (lit ''quiz1::a@x.com'') 2000 sample_autosave (Some sample_stored)))
       (lit ''p2'') = None
   \<and> map_of (progress (attempt_doc (lit ''quiz1::a@x.com'') 2000 sample_autosave (Some sample_stored)))
       (lit ''p3'') = Some (JStr (lit '' ''))
   \<and> map_of (progress (attempt_doc (lit ''quiz1::a@x.com'') 2000
         (JObj [(lit ''progress'', JObj [(lit ''p1'', JNull)])]) (Some sample_stored)))
       (lit ''p1'') = Some (JNum 5)"
proof -
  have k: "lit ''q1'' \<noteq> lit ''__proto__''" "lit ''q2'' \<noteq> lit ''__proto__''"
    "lit ''note'' \<noteq> lit ''__proto__''" "lit ''q4'' \<noteq> lit ''__proto__''"
    "lit ''p1'' \<noteq> lit ''__proto__''" "lit ''p2'' \<noteq> lit ''__proto__''"
    "lit ''p3'' \<noteq> lit ''__proto__''"
    by (simp_all add: lit_def)
  note r = attempt_merge_rules[where i = "lit ''quiz1::a@x.com''" and now = 2000
      and existing = "Some sample_stored" and e = sample_stored]
  show ?thesis
    using r[OF k(1), of sample_autosave] r[OF k(2), of sample_autosave]
      r[OF k(3), of sample_autosave] r[OF k(4), of sample_autosave]
      r[OF k(5), of sample_autosave] r[OF k(6), of sample_autosave]
      r[OF k(7), of sample_autosave]
      r[OF k(5), of "JObj [(lit ''progress'', JObj [(lit ''p1'', JNull)])]"]
    by (simp add: lit_def sample_autosave_def sample_stored_def question_key_def is_digit_def
        trim_def is_ws_def)
qed

text \<open>
  The claim as stated fails at the key \<open>__proto__\<close>: the assignment
  \<open>mergedAnswers[k] = v\<close> under that key reaches the setter of the prototype and
  creates no entry, so the incoming value, which is neither \<open>null\<close> nor blank, is
  not inserted. The same holds for progress.
\<close>

theorem proto_key_not_inserted:
  "get_prop sample_proto (lit ''answers'') = Some (JObj [(lit ''__proto__'', JStr (lit ''Z''))])
   \<and> JStr (lit ''Z'') \<noteq> JNull \<and> \<not> blank_string (JStr (lit ''Z''))
   \<and> map_of (answers (attempt_doc (lit ''quiz1::a@x.com'') 2000 sample_proto (Some sample_stored)))
        (lit ''__proto__'') = None
   \<and> get_prop sample_proto (lit ''progress'') = Some (JObj [(lit ''__proto__'', JNum 7)])
   \<and> map_of (progress (attempt_doc (lit ''quiz1::a@x.com'') 2000 sample_proto (Some sample_stored)))
        (lit ''__proto__'') = None"
  by (simp add: lit_def sample_proto_def sample_stored_def attempt_doc_def incomingAnswers_def
      nested_answers_def incomingProgress_def mergedAnswers_def mergedProgress_def
      stored_answers_def stored_progress_def object_assign_def assign_prop_def
      question_key_def is_digit_def trim_def is_ws_def)

subsection \<open>Top-level question keys\<close>

text \<open>
  Claim C10. When the payload has a top-level entry under a question key, that value is
  the incoming answer for the key, whatever the nested \<open>answers\<close> object holds for it:
  the top-level keys are assigned after the nested object was copied. The merge then
  treats this value by the per-key rules.
\<close>

theorem top_level_answer_wins:
  assumes "question_key k" and "get_prop incoming k = Some v"
  shows "map_of (incomingAnswers incoming) k = Some v
     \<and> map_of (answers (attempt_doc i now incoming existing)) k =
         (if v = JNull \<or> blank_string v then map_of (stored_answers existing) k else Some v)"
proof -
  from assms have "map_of (own_props incoming) k = Some v"
    by (simp add: get_prop_own_props question_key_not_length)
  with assms(1) have inc: "map_of (incomingAnswers incoming) k = Some v"
    by (simp add: map_of_incomingAnswers)
  then show ?thesis
    using question_key_not_proto[OF assms(1)]
    by (simp add: attempt_doc_def map_of_mergedAnswers[OF distinct_incomingAnswers])
qed

text \<open>
  In the sample payload the nested object has \<open>q3: "E"\<close> and the top level has
  \<open>q3: "D"\<close>; the incoming and the merged answer are \<open>"D"\<close>.
\<close>

theorem top_level_answer_wins_witness:
  "question_key (lit ''q3'')
   \<and> get_prop sample_payload (lit ''q3'') = Some (JStr (lit ''D''))
   \<and> map_of (nested_answers sample_payload) (lit ''q3'') = Some (JStr (lit ''E''))
   \<and> map_of (incomingAnswers sample_payload) (lit ''q3'') = Some (JStr (lit ''D''))
   \<and> map_of (answers (attempt_doc (lit ''quiz1::a@x.com'') 2000 sample_payload (Some sample_stored)))
        (lit ''q3'') = Some (JStr (lit ''D''))"
proof -
  have k: "question_key (lit ''q3'')"
    by (simp add: question_key_def is_digit_def lit_def)
  have g: "get_prop sample_payload (lit ''q3'') = Some (JStr (lit ''D''))"
    by (simp add: sample_payload_def lit_def)
  have n: "map_of (nested_answers sample_payload) (lit ''q3'') = Some (JStr (lit ''E''))"
    by (simp add: sample_payload_def nested_answers_def assign_prop_def lit_def)
  show ?thesis
    using k g n top_level_answer_wins[OF k g, of "lit ''quiz1::a@x.com''" 2000 "Some sample_stored"]
    by (simp add: lit_def trim_def is_ws_def)
qed

subsection \<open>Monotonicity\<close>




subsection \<open>Idempotence\<close>

lemma attempt_doc_twice:
  "attempt_doc i t2 incoming (Some (attempt_doc i t1 incoming existing))
     = (attempt_doc i t1 incoming existing)\<lparr>submittedAt := t2\<rparr>"
proof -
  have a: "object_assign (mergedAnswers (stored_answers existing) (incomingAnswers incoming))
      = mergedAnswers (stored_answers existing) (incomingAnswers incoming)"
    by (rule object_assign_id)
       (simp_all add: merged_invariants distinct_stored no_proto_stored)
  have p: "object_assign (mergedProgress (stored_progress existing) (incomingProgress incoming))
      = mergedProgress (stored_progress existing) (incomingProgress incoming)"
    by (rule object_assign_id)
       (simp_all add: merged_invariants distinct_stored no_proto_stored)
  show ?thesis
    by (simp add: attempt_doc_def stored_answers_def[of "Some _"] stored_progress_def[of "Some _"]
        a p mergedAnswers_twice[OF distinct_incomingAnswers]
        mergedProgress_twice[OF distinct_incomingProgress])
qed

lemma attempt_doc_existing_cong:
  "answers e = answers e' \<Longrightarrow> progress e = progress e' \<Longrightarrow>
   attempt_doc i t b (Some e) = attempt_doc i t b (Some e')"
  by (simp add: attempt_doc_def stored_answers_def stored_progress_def)

lemma put_field_twice: "put_field x (put_field x y) = put_field x y"
  by (simp add: put_field_def split: option.splits)

lemma upsert_attempt_result:
  assumes "upsert_attempt cast doc store = Inr (d, store')"
  shows "store' = store(attempt_id doc \<mapsto> d)"
    and "answers d = answers doc" and "progress d = progress doc"
    and "attempt_id d = attempt_id doc" and "submittedAt d = submittedAt doc"
    and "score d = (case score doc of
                      None \<Rightarrow> (case store (attempt_id doc) of None \<Rightarrow> None | Some prev \<Rightarrow> score prev)
                    | Some v \<Rightarrow> cast_value cast TNumber v)"
    and "totalQuestions d = (case totalQuestions doc of
                      None \<Rightarrow> (case store (attempt_id doc) of None \<Rightarrow> None
                                 | Some prev \<Rightarrow> totalQuestions prev)
                    | Some v \<Rightarrow> cast_value cast TNumber v)"
    and "submitted d = (case submitted doc of
                      None \<Rightarrow> (case store (attempt_id doc) of None \<Rightarrow> Some (JBool False)
                                 | Some prev \<Rightarrow> submitted prev)
                    | Some v \<Rightarrow> cast_value cast TBoolean v)"
  using assms
  by (auto simp: upsert_attempt_def cast_field_def put_field_def Let_def
      split: option.splits)

lemma upsert_attempt_again:
  assumes "upsert_attempt cast doc store = Inr (d, store')"
  shows "upsert_attempt cast (doc\<lparr>submittedAt := t2\<rparr>) store'
           = Inr (d\<lparr>submittedAt := t2\<rparr>, store'(attempt_id doc \<mapsto> d\<lparr>submittedAt := t2\<rparr>))"
  using assms
  by (auto simp: upsert_attempt_def cast_field_def put_field_def Let_def
      split: option.splits)

lemma upsert_attempt_refused_again:
  assumes "upsert_attempt cast doc store = Inl e"
  shows "upsert_attempt cast (doc\<lparr>submittedAt := t2\<rparr>) store = Inl e"
  using assms
  by (auto simp: upsert_attempt_def cast_field_def Let_def split: option.splits)

lemma post_attempts_refused_again:
  assumes "status (fst (post_attempts toStr cast t1 body store)) \<noteq> 200"
  shows "post_attempts toStr cast t2 body (snd (post_attempts toStr cast t1 body store))
           = post_attempts toStr cast t1 body store"
proof (cases "body = JNull")
  case True
  then show ?thesis by (simp add: post_attempts_def)
next
  case False
  let ?i = "attempt_key toStr body"
  let ?doc1 = "attempt_doc ?i t1 body (store ?i)"
  from assms False obtain e where up: "upsert_attempt cast ?doc1 store = Inl e"
    by (auto simp: post_attempts_def Let_def split: sum.splits)
  then have first: "post_attempts toStr cast t1 body store = (ReplyError 500 e, store)"
    using False by (simp add: post_attempts_def Let_def)
  have "attempt_doc ?i t2 body (store ?i) = ?doc1\<lparr>submittedAt := t2\<rparr>"
    by (simp add: attempt_doc_def)
  with upsert_attempt_refused_again[OF up, of t2]
  have "post_attempts toStr cast t2 body store = (ReplyError 500 e, store)"
    using False by (simp add: post_attempts_def Let_def)
  then show ?thesis unfolding first by simp
qed

lemma upsert_attempt_refused:
  assumes "(\<exists>v. score doc = Some v \<and> cast_value cast TNumber v = None)
     \<or> (\<exists>v. totalQuestions doc = Some v \<and> cast_value cast TNumber v = None)
     \<or> (\<exists>v. submitted doc = Some v \<and> cast_value cast TBoolean v = None)"
  shows "\<exists>e. upsert_attempt cast doc store = Inl e"
  using assms
  by (auto simp: upsert_attempt_def cast_field_def split: option.splits)

lemma post_attempts_refused:
  assumes "(\<exists>v. get_prop body (lit ''score'') = Some v \<and> cast_value cast TNumber v = None)
     \<or> (\<exists>v. get_prop body (lit ''totalQuestions'') = Some v \<and> cast_value cast TNumber v = None)
     \<or> (\<exists>v. get_prop body (lit ''submitted'') = Some v \<and> cast_value cast TBoolean v = None)"
  shows "status (fst (post_attempts toStr cast now body store)) = 500
     \<and> snd (post_attempts toStr cast now body store) = store"
proof (cases "body = JNull")
  case True
  then show ?thesis by (simp add: post_attempts_def)
next
  case False
  let ?doc = "attempt_doc (attempt_key toStr body) now body (store (attempt_key toStr body))"
  have f: "score ?doc = get_prop body (lit ''score'')"
    "totalQuestions ?doc = get_prop body (lit ''totalQuestions'')"
    "submitted ?doc = get_prop body (lit ''submitted'')"
    by (simp_all add: attempt_doc_def)
  from upsert_attempt_refused[of ?doc cast store] assms
  obtain e where "upsert_attempt cast ?doc store = Inl e"
    unfolding f by blast
  with False show ?thesis by (simp add: post_attempts_def Let_def)
qed

text \<open>
  Claim C5. Merging the same payload into the result of its own merge changes nothing
  but \<open>submittedAt\<close>, which is the clock reading of the second call: the merged answers
  and progress, and every other field, are those of the first merge. The same holds for
  the handler: when a call is answered with a record, the same call on the collection
  it left is answered with that record at the later clock reading, and stores it; when
  a call is refused, the same call on the collection it left, which is unchanged, is
  refused in the same way.
\<close>

theorem attempt_merge_idempotent:
  "attempt_doc i t2 incoming (Some (attempt_doc i t1 incoming existing))
     = (attempt_doc i t1 incoming existing)\<lparr>submittedAt := t2\<rparr>
   \<and> (fst (post_attempts toStr cast t1 body store) = Reply200 d \<longrightarrow>
        post_attempts toStr cast t2 body (snd (post_attempts toStr cast t1 body store))
          = (Reply200 (d\<lparr>submittedAt := t2\<rparr>),
             (snd (post_attempts toStr cast t1 body store))
               (attempt_key toStr body \<mapsto> d\<lparr>submittedAt := t2\<rparr>)))
   \<and> (status (fst (post_attempts toStr cast t1 body store)) \<noteq> 200 \<longrightarrow>
        post_attempts toStr cast t2 body (snd (post_attempts toStr cast t1 body store))
          = post_attempts toStr cast t1 body store)"
proof (intro conjI impI)
  show "attempt_doc i t2 incoming (Some (attempt_doc i t1 incoming existing))
     = (attempt_doc i t1 incoming existing)\<lparr>submittedAt := t2\<rparr>"
    by (rule attempt_doc_twice)
next
  let ?i = "attempt_key toStr body"
  let ?doc1 = "attempt_doc ?i t1 body (store ?i)"
  assume ok: "fst (post_attempts toStr cast t1 body store) = Reply200 d"
  then have body: "body \<noteq> JNull"
    by (auto simp: post_attempts_def)
  from ok body obtain store' where up: "upsert_attempt cast ?doc1 store = Inr (d, store')"
    by (auto simp: post_attempts_def Let_def split: sum.splits)
  then have first: "post_attempts toStr cast t1 body store = (Reply200 d, store')"
    using body by (simp add: post_attempts_def Let_def)
  have id1: "attempt_id ?doc1 = ?i" by (simp add: attempt_doc_def)
  from upsert_attempt_result[OF up] id1
  have st: "store' ?i = Some d" and ad: "answers d = answers ?doc1" "progress d = progress ?doc1"
    by simp_all
  have "attempt_doc ?i t2 body (Some d) = attempt_doc ?i t2 body (Some ?doc1)"
    using ad by (rule attempt_doc_existing_cong)
  also have "\<dots> = ?doc1\<lparr>submittedAt := t2\<rparr>" by (rule attempt_doc_twice)
  finally have doc2: "attempt_doc ?i t2 body (store' ?i) = ?doc1\<lparr>submittedAt := t2\<rparr>"
    using st by simp
  show "post_attempts toStr cast t2 body (snd (post_attempts toStr cast t1 body store))
          = (Reply200 (d\<lparr>submittedAt := t2\<rparr>),
             (snd (post_attempts toStr cast t1 body store))
               (attempt_key toStr body \<mapsto> d\<lparr>submittedAt := t2\<rparr>))"
  proof -
    have "post_attempts toStr cast t2 body store'
        = (Reply200 (d\<lparr>submittedAt := t2\<rparr>), store'(?i \<mapsto> d\<lparr>submittedAt := t2\<rparr>))"
      using body upsert_attempt_again[OF up, of t2] id1
      by (simp add: post_attempts_def Let_def doc2)
    then show ?thesis unfolding first snd_conv .
  qed
next
  assume "status (fst (post_attempts toStr cast t1 body store)) \<noteq> 200"
  then show "post_attempts toStr cast t2 body (snd (post_attempts toStr cast t1 body store))
          = post_attempts toStr cast t1 body store"
    by (rule post_attempts_refused_again)
qed

lemma sample_first_save:
  "attempt_key sample_toStr sample_payload = lit ''quiz1::a@x.com''"
  "post_attempts sample_toStr sample_cast 2000 sample_payload sample_store
     = (Reply200 (attempt_doc (lit ''quiz1::a@x.com'') 2000 sample_payload (Some sample_stored)),
        sample_store(lit ''quiz1::a@x.com'' \<mapsto>
          attempt_doc (lit ''quiz1::a@x.com'') 2000 sample_payload (Some sample_stored)))"
proof -
  show k: "attempt_key sample_toStr sample_payload = lit ''quiz1::a@x.com''"
    by (simp add: attempt_key_def sample_toStr_def sample_payload_def lit_def)
  have s: "sample_store (lit ''quiz1::a@x.com'') = Some sample_stored"
    by (simp add: sample_store_def)
  have n: "sample_payload \<noteq> JNull" by (simp add: sample_payload_def)
  have f: "quizId (attempt_doc i t sample_payload ex) = Some (JStr (lit ''quiz1''))"
    "email (attempt_doc i t sample_payload ex) = Some (JStr (lit ''a@x.com''))"
    "score (attempt_doc i t sample_payload ex) = Some (JNum 0)"
    "totalQuestions (attempt_doc i t sample_payload ex) = Some (JNum 3)"
    "submitted (attempt_doc i t sample_payload ex) = Some (JBool False)"
    "attempt_id (attempt_doc i t sample_payload ex) = i" for i t ex
    by (simp_all add: attempt_doc_def sample_payload_def lit_def)
  have "upsert_attempt sample_cast (attempt_doc (lit ''quiz1::a@x.com'') 2000 sample_payload (Some sample_stored))
          sample_store
      = Inr (attempt_doc (lit ''quiz1::a@x.com'') 2000 sample_payload (Some sample_stored),
          sample_store(lit ''quiz1::a@x.com'' \<mapsto>
            attempt_doc (lit ''quiz1::a@x.com'') 2000 sample_payload (Some sample_stored)))"
    by (simp add: upsert_attempt_def cast_field_def cast_value_def put_field_def f Let_def)
       (simp add: attempt_doc_def sample_payload_def lit_def)
  then show "post_attempts sample_toStr sample_cast 2000 sample_payload sample_store
     = (Reply200 (attempt_doc (lit ''quiz1::a@x.com'') 2000 sample_payload (Some sample_stored)),
        sample_store(lit ''quiz1::a@x.com'' \<mapsto>
          attempt_doc (lit ''quiz1::a@x.com'') 2000 sample_payload (Some sample_stored)))"
    using n by (simp add: post_attempts_def k s Let_def)
qed

text \<open>
  Two autosaves of the sample payload, at times 2000 and 3000, and two calls with the
  payload whose score is no number.
\<close>

theorem attempt_merge_idempotent_witness:
  "fst (post_attempts sample_toStr sample_cast 2000 sample_payload sample_store)
     = Reply200 (attempt_doc (lit ''quiz1::a@x.com'') 2000 sample_payload (Some sample_stored))
   \<and> post_attempts sample_toStr sample_cast 3000 sample_payload
         (snd (post_attempts sample_toStr sample_cast 2000 sample_payload sample_store))
     = (Reply200 ((attempt_doc (lit ''quiz1::a@x.com'') 2000 sample_payload (Some sample_stored))
                    \<lparr>submittedAt := 3000\<rparr>),
        (snd (post_attempts sample_toStr sample_cast 2000 sample_payload sample_store))
          (lit ''quiz1::a@x.com'' \<mapsto>
             (attempt_doc (lit ''quiz1::a@x.com'') 2000 sample_payload (Some sample_stored))
               \<lparr>submittedAt := 3000\<rparr>))
   \<and> status (fst (post_attempts sample_toStr sample_cast 2000 sample_badscore sample_store)) \<noteq> 200
   \<and> post_attempts sample_toStr sample_cast 3000 sample_badscore
         (snd (post_attempts sample_toStr sample_cast 2000 sample_badscore sample_store))
     = post_attempts sample_toStr sample_cast 2000 sample_badscore sample_store"
proof -
  have h: "fst (post_attempts sample_toStr sample_cast 2000 sample_payload sample_store)
     = Reply200 (attempt_doc (lit ''quiz1::a@x.com'') 2000 sample_payload (Some sample_stored))"
    by (simp add: sample_first_save(2))
  have ok: "post_attempts sample_toStr sample_cast 3000 sample_payload
         (snd (post_attempts sample_toStr sample_cast 2000 sample_payload sample_store))
     = (Reply200 ((attempt_doc (lit ''quiz1::a@x.com'') 2000 sample_payload (Some sample_stored))
                    \<lparr>submittedAt := 3000\<rparr>),
        (snd (post_attempts sample_toStr sample_cast 2000 sample_payload sample_store))
          (lit ''quiz1::a@x.com'' \<mapsto>
             (attempt_doc (lit ''quiz1::a@x.com'') 2000 sample_payload (Some sample_stored))
               \<lparr>submittedAt := 3000\<rparr>))"
    using h sample_first_save(1)
      attempt_merge_idempotent[where toStr = sample_toStr and cast = sample_cast and ?t1.0 = 2000
        and ?t2.0 = 3000 and body = sample_payload and store = sample_store
        and d = "attempt_doc (lit ''quiz1::a@x.com'') 2000 sample_payload (Some sample_stored)"]
    by simp
  have "get_prop sample_badscore (lit ''score'') = Some (JStr (lit ''high''))
      \<and> cast_value sample_cast TNumber (JStr (lit ''high'')) = None"
    by (simp add: sample_badscore_def cast_value_def sample_cast_def lit_def)
  then have "status (fst (post_attempts sample_toStr sample_cast 2000 sample_badscore sample_store)) = 500"
    using post_attempts_refused[of sample_badscore sample_cast sample_toStr 2000 sample_store]
    by blast
  then have b: "status (fst (post_attempts sample_toStr sample_cast 2000 sample_badscore sample_store)) \<noteq> 200"
    by simp
  have bad: "post_attempts sample_toStr sample_cast 3000 sample_badscore
         (snd (post_attempts sample_toStr sample_cast 2000 sample_badscore sample_store))
     = post_attempts sample_toStr sample_cast 2000 sample_badscore sample_store"
    using b
      attempt_merge_idempotent[where toStr = sample_toStr and cast = sample_cast and ?t1.0 = 2000
        and ?t2.0 = 3000 and body = sample_badscore and store = sample_store]
    by blast
  show ?thesis
    by (intro conjI h ok b bad)
qed

subsection \<open>Fields that are overwritten\<close>

text \<open>
  Claim C7, as the code has it. The document the handler builds takes \<open>score\<close>,
  \<open>totalQuestions\<close> and \<open>submitted\<close> from the payload and the clock reading of the
  call as \<open>submittedAt\<close>. The record the handler replies with, and stores under the
  attempt id, has that \<open>submittedAt\<close>; each of the three fields that the payload
  supplies is the payload's value after the conversion to the schema's type, whatever
  the stored record held, and a field the payload omits is left as stored (on creation,
  \<open>submitted\<close> is \<open>false\<close> and the two numbers are absent). A payload that says
  \<open>submitted: true\<close> or \<open>submitted: false\<close> sets the flag to that value. When one
  of the three values cannot be converted, the reply is 500 and nothing is stored.
\<close>

theorem attempt_scalars_overwrite:
  "score (attempt_doc i now incoming existing) = get_prop incoming (lit ''score'')
   \<and> totalQuestions (attempt_doc i now incoming existing) = get_prop incoming (lit ''totalQuestions'')
   \<and> submitted (attempt_doc i now incoming existing) = get_prop incoming (lit ''submitted'')
   \<and> submittedAt (attempt_doc i now incoming existing) = now
   \<and> (post_attempts toStr cast now body store = (Reply200 d, store') \<longrightarrow>
        store' = store(attempt_key toStr body \<mapsto> d)
        \<and> submittedAt d = now
        \<and> score d =
            (case get_prop body (lit ''score'') of
               None \<Rightarrow> (case store (attempt_key toStr body) of
                           None \<Rightarrow> None | Some prev \<Rightarrow> score prev)
             | Some v \<Rightarrow> cast_value cast TNumber v)
        \<and> totalQuestions d =
            (case get_prop body (lit ''totalQuestions'') of
               None \<Rightarrow> (case store (attempt_key toStr body) of
                           None \<Rightarrow> None | Some prev \<Rightarrow> totalQuestions prev)
             | Some v \<Rightarrow> cast_value cast TNumber v)
        \<and> submitted d =
            (case get_prop body (lit ''submitted'') of
               None \<Rightarrow> (case store (attempt_key toStr body) of
                           None \<Rightarrow> Some (JBool False) | Some prev \<Rightarrow> submitted prev)
             | Some v \<Rightarrow> cast_value cast TBoolean v)
        \<and> (\<forall>b. get_prop body (lit ''submitted'') = Some (JBool b) \<longrightarrow> submitted d = Some (JBool b)))
   \<and> ((\<exists>v. get_prop body (lit ''score'') = Some v \<and> cast_value cast TNumber v = None)
        \<or> (\<exists>v. get_prop body (lit ''totalQuestions'') = Some v \<and> cast_value cast TNumber v = None)
        \<or> (\<exists>v. get_prop body (lit ''submitted'') = Some v \<and> cast_value cast TBoolean v = None) \<longrightarrow>
        status (fst (post_attempts toStr cast now body store)) = 500
        \<and> snd (post_attempts toStr cast now body store) = store)"
proof -
  have d1: "score (attempt_doc i now incoming existing) = get_prop incoming (lit ''score'')"
    and d2: "totalQuestions (attempt_doc i now incoming existing) = get_prop incoming (lit ''totalQuestions'')"
    and d3: "submitted (attempt_doc i now incoming existing) = get_prop incoming (lit ''submitted'')"
    and d4: "submittedAt (attempt_doc i now incoming existing) = now"
    by (simp_all add: attempt_doc_def)
  have u: "post_attempts toStr cast now body store = (Reply200 d, store') \<longrightarrow>
        store' = store(attempt_key toStr body \<mapsto> d)
        \<and> submittedAt d = now
        \<and> score d =
            (case get_prop body (lit ''score'') of
               None \<Rightarrow> (case store (attempt_key toStr body) of
                           None \<Rightarrow> None | Some prev \<Rightarrow> score prev)
             | Some v \<Rightarrow> cast_value cast TNumber v)
        \<and> totalQuestions d =
            (case get_prop body (lit ''totalQuestions'') of
               None \<Rightarrow> (case store (attempt_key toStr body) of
                           None \<Rightarrow> None | Some prev \<Rightarrow> totalQuestions prev)
             | Some v \<Rightarrow> cast_value cast TNumber v)
        \<and> submitted d =
            (case get_prop body (lit ''submitted'') of
               None \<Rightarrow> (case store (attempt_key toStr body) of
                           None \<Rightarrow> Some (JBool False) | Some prev \<Rightarrow> submitted prev)
             | Some v \<Rightarrow> cast_value cast TBoolean v)
        \<and> (\<forall>b. get_prop body (lit ''submitted'') = Some (JBool b) \<longrightarrow> submitted d = Some (JBool b))"
  proof (intro conjI impI)
    let ?i = "attempt_key toStr body"
    let ?doc = "attempt_doc ?i now body (store ?i)"
    assume ok: "post_attempts toStr cast now body store = (Reply200 d, store')"
    then have body: "body \<noteq> JNull" by (auto simp: post_attempts_def)
    with ok have up: "upsert_attempt cast ?doc store = Inr (d, store')"
      by (auto simp: post_attempts_def Let_def split: sum.splits)
    have f: "attempt_id ?doc = ?i" "submittedAt ?doc = now"
      "score ?doc = get_prop body (lit ''score'')"
      "totalQuestions ?doc = get_prop body (lit ''totalQuestions'')"
      "submitted ?doc = get_prop body (lit ''submitted'')"
      by (simp_all add: attempt_doc_def)
    note r = upsert_attempt_result[OF up, unfolded f]
    show "store' = store(?i \<mapsto> d)" by (rule r(1))
    show "submittedAt d = now" by (rule r(5))
    show "score d =
              (case get_prop body (lit ''score'') of
                 None \<Rightarrow> (case store ?i of None \<Rightarrow> None | Some prev \<Rightarrow> score prev)
               | Some v \<Rightarrow> cast_value cast TNumber v)" by (rule r(6))
    show "totalQuestions d =
              (case get_prop body (lit ''totalQuestions'') of
                 None \<Rightarrow> (case store ?i of None \<Rightarrow> None | Some prev \<Rightarrow> totalQuestions prev)
               | Some v \<Rightarrow> cast_value cast TNumber v)" by (rule r(7))
    show s: "submitted d =
              (case get_prop body (lit ''submitted'') of
                 None \<Rightarrow> (case store ?i of None \<Rightarrow> Some (JBool False) | Some prev \<Rightarrow> submitted prev)
               | Some v \<Rightarrow> cast_value cast TBoolean v)" by (rule r(8))
    show "\<forall>b. get_prop body (lit ''submitted'') = Some (JBool b) \<longrightarrow> submitted d = Some (JBool b)"
      using s by (simp add: cast_value_def)
  qed
  have r: "(\<exists>v. get_prop body (lit ''score'') = Some v \<and> cast_value cast TNumber v = None)
        \<or> (\<exists>v. get_prop body (lit ''totalQuestions'') = Some v \<and> cast_value cast TNumber v = None)
        \<or> (\<exists>v. get_prop body (lit ''submitted'') = Some v \<and> cast_value cast TBoolean v = None) \<longrightarrow>
        status (fst (post_attempts toStr cast now body store)) = 500
        \<and> snd (post_attempts toStr cast now body store) = store"
    by (rule impI) (rule post_attempts_refused)
  show ?thesis
    by (intro conjI d1 d2 d3 d4 u r)
qed

text \<open>
  The stored sample is submitted; the sample payload says \<open>submitted: false\<close> and
  \<open>score: 0\<close>, and the stored record after the call is no longer submitted. A
  payload whose score is the text \<open>high\<close> is answered with 500, the collection
  unchanged.
\<close>

theorem attempt_scalars_overwrite_witness:
  "submitted sample_stored = Some (JBool True)
   \<and> sample_store (attempt_key sample_toStr sample_payload) = Some sample_stored
   \<and> get_prop sample_payload (lit ''submitted'') = Some (JBool False)
   \<and> status (fst (post_attempts sample_toStr sample_cast 2000 sample_payload sample_store)) = 200
   \<and> map_option submitted
        (snd (post_attempts sample_toStr sample_cast 2000 sample_payload sample_store)
           (attempt_key sample_toStr sample_payload)) = Some (Some (JBool False))
   \<and> map_option score
        (snd (post_attempts sample_toStr sample_cast 2000 sample_payload sample_store)
           (attempt_key sample_toStr sample_payload)) = Some (Some (JNum 0))
   \<and> map_option submittedAt
        (snd (post_attempts sample_toStr sample_cast 2000 sample_payload sample_store)
           (attempt_key sample_toStr sample_payload)) = Some 2000
   \<and> get_prop sample_badscore (lit ''score'') = Some (JStr (lit ''high''))
   \<and> cast_value sample_cast TNumber (JStr (lit ''high'')) = None
   \<and> status (fst (post_attempts sample_toStr sample_cast 2000 sample_badscore sample_store)) = 500
   \<and> snd (post_attempts sample_toStr sample_cast 2000 sample_badscore sample_store) = sample_store"
proof -
  have s: "submitted sample_stored = Some (JBool True)
      \<and> sample_store (lit ''quiz1::a@x.com'') = Some sample_stored"
    by (simp add: sample_store_def sample_stored_def)
  have g: "get_prop sample_payload (lit ''submitted'') = Some (JBool False)
      \<and> get_prop sample_payload (lit ''score'') = Some (JNum 0)"
    by (simp add: sample_payload_def lit_def)
  have b: "get_prop sample_badscore (lit ''score'') = Some (JStr (lit ''high''))
      \<and> cast_value sample_cast TNumber (JStr (lit ''high'')) = None"
    by (simp add: sample_badscore_def cast_value_def sample_cast_def lit_def)
  have ok: "submitted sample_stored = Some (JBool True)
   \<and> sample_store (attempt_key sample_toStr sample_payload) = Some sample_stored
   \<and> get_prop sample_payload (lit ''submitted'') = Some (JBool False)
   \<and> status (fst (post_attempts sample_toStr sample_cast 2000 sample_payload sample_store)) = 200
   \<and> map_option submitted
        (snd (post_attempts sample_toStr sample_cast 2000 sample_payload sample_store)
           (attempt_key sample_toStr sample_payload)) = Some (Some (JBool False))
   \<and> map_option score
        (snd (post_attempts sample_toStr sample_cast 2000 sample_payload sample_store)
           (attempt_key sample_toStr sample_payload)) = Some (Some (JNum 0))
   \<and> map_option submittedAt
        (snd (post_attempts sample_toStr sample_cast 2000 sample_payload sample_store)
           (attempt_key sample_toStr sample_payload)) = Some 2000"
    using s g sample_first_save
      attempt_scalars_overwrite[where toStr = sample_toStr and cast = sample_cast and now = 2000
        and body = sample_payload and store = sample_store
        and d = "attempt_doc (lit ''quiz1::a@x.com'') 2000 sample_payload (Some sample_stored)"
        and store' = "sample_store(lit ''quiz1::a@x.com'' \<mapsto>
          attempt_doc (lit ''quiz1::a@x.com'') 2000 sample_payload (Some sample_stored))"]
    by (simp add: cast_value_def)
  have bad: "status (fst (post_attempts sample_toStr sample_cast 2000 sample_badscore sample_store)) = 500
   \<and> snd (post_attempts sample_toStr sample_cast 2000 sample_badscore sample_store) = sample_store"
    using b
      attempt_scalars_overwrite[where toStr = sample_toStr and cast = sample_cast and now = 2000
        and body = sample_badscore and store = sample_store]
    by blast
  show ?thesis
    using ok b bad by (intro conjI) simp_all
qed

text \<open>
  The claim as stated fails for a payload that omits the three fields: the record keeps
  the stored \<open>score: 1\<close>, \<open>totalQuestions: 3\<close> and \<open>submitted: true\<close>.
\<close>

theorem omitted_scalars_keep_stored:
  "get_prop sample_partial (lit ''score'') = None
   \<and> get_prop sample_partial (lit ''totalQuestions'') = None
   \<and> get_prop sample_partial (lit ''submitted'') = None
   \<and> attempt_key sample_toStr sample_partial = lit ''quiz1::a@x.com''
   \<and> map_option submitted (sample_store (lit ''quiz1::a@x.com'')) = Some (Some (JBool True))
   \<and> status (fst (post_attempts sample_toStr sample_cast 2000 sample_partial sample_store)) = 200
   \<and> map_option score
        (snd (post_attempts sample_toStr sample_cast 2000 sample_partial sample_store)
           (lit ''quiz1::a@x.com'')) = Some (Some (JNum 1))
   \<and> map_option totalQuestions
        (snd (post_attempts sample_toStr sample_cast 2000 sample_partial sample_store)
           (lit ''quiz1::a@x.com'')) = Some (Some (JNum 3))
   \<and> map_option submitted
        (snd (post_attempts sample_toStr sample_cast 2000 sample_partial sample_store)
           (lit ''quiz1::a@x.com'')) = Some (Some (JBool True))"
proof -
  have k: "attempt_key sample_toStr sample_partial = lit ''quiz1::a@x.com''"
    by (simp add: attempt_key_def sample_toStr_def sample_partial_def lit_def)
  have g: "get_prop sample_partial (lit ''score'') = None
      \<and> get_prop sample_partial (lit ''totalQuestions'') = None
      \<and> get_prop sample_partial (lit ''submitted'') = None
      \<and> get_prop sample_partial (lit ''quizId'') = Some (JStr (lit ''quiz1''))
      \<and> get_prop sample_partial (lit ''email'') = Some (JStr (lit ''a@x.com''))
      \<and> sample_partial \<noteq> JNull"
    by (simp add: sample_partial_def lit_def)
  have s: "sample_store (lit ''quiz1::a@x.com'') = Some sample_stored"
    by (simp add: sample_store_def)
  have f: "score sample_stored = Some (JNum 1) \<and> totalQuestions sample_stored = Some (JNum 3)
      \<and> submitted sample_stored = Some (JBool True)"
    by (simp add: sample_stored_def)
  show ?thesis
    using g s f
    by (simp add: k post_attempts_def upsert_attempt_def attempt_doc_def cast_field_def
        cast_value_def put_field_def Let_def)
qed

section \<open>Properties of the allow-list gate\<close>

lemma not_truthy_opt_iff:
  "\<not> truthy_opt e \<or> \<not> includes_email l e \<longleftrightarrow>
     e = None \<or> e = Some (JStr []) \<or> \<not> includes_email l e"
  by (cases "(l, e)" rule: includes_email.cases) (auto simp: truthy_opt_def)

text \<open>
  Claim C8, as the code has it. For a stored quiz with a non-empty allow-list the reply
  is 403 when the email parameter is absent, is the empty string, or is not a member of
  the list, and 200 with the quiz and the file URL otherwise. With an empty or unset
  allow-list the reply is 200 whatever the email parameter is.
\<close>

theorem allow_list_gate:
  assumes "store qid = Some q"
  shows "(allowedStudents q = Some l \<and> l \<noteq> [] \<longrightarrow>
            (if email_param = None \<or> email_param = Some (JStr []) \<or> \<not> includes_email l email_param
             then get_quiz basename host store qid email_param = ReplyError 403 (lit ''not allowed'')
             else \<exists>url. get_quiz basename host store qid email_param
                    = Reply200 \<lparr> payload_quiz = quiz_object q, payload_fileUrl = url \<rparr>))
     \<and> (allowedStudents q = None \<or> allowedStudents q = Some [] \<longrightarrow>
            (\<exists>url. get_quiz basename host store qid email_param
                    = Reply200 \<lparr> payload_quiz = quiz_object q, payload_fileUrl = url \<rparr>))"
proof (intro conjI impI)
  assume a: "allowedStudents q = Some l \<and> l \<noteq> []"
  show "if email_param = None \<or> email_param = Some (JStr []) \<or> \<not> includes_email l email_param
        then get_quiz basename host store qid email_param = ReplyError 403 (lit ''not allowed'')
        else \<exists>url. get_quiz basename host store qid email_param
               = Reply200 \<lparr> payload_quiz = quiz_object q, payload_fileUrl = url \<rparr>"
  proof (cases "\<not> truthy_opt email_param \<or> \<not> includes_email l email_param")
    case True
    then have "get_quiz basename host store qid email_param = ReplyError 403 (lit ''not allowed'')"
      using assms a by (simp add: get_quiz_def)
    with True show ?thesis by (simp only: not_truthy_opt_iff if_True)
  next
    case False
    then have "\<exists>url. get_quiz basename host store qid email_param
               = Reply200 \<lparr> payload_quiz = quiz_object q, payload_fileUrl = url \<rparr>"
      using assms a by (simp add: get_quiz_def)
    with False show ?thesis by (simp only: not_truthy_opt_iff if_False)
  qed
next
  assume "allowedStudents q = None \<or> allowedStudents q = Some []"
  then show "\<exists>url. get_quiz basename host store qid email_param
               = Reply200 \<lparr> payload_quiz = quiz_object q, payload_fileUrl = url \<rparr>"
    using assms by (auto simp: get_quiz_def)
qed

text \<open>
  The example of the specification: with the list \<open>["a@x.com"]\<close>, the email
  \<open>b@x.com\<close> and a missing email get 403, and \<open>a@x.com\<close> gets 200.
\<close>

theorem allow_list_gate_witness:
  "sample_quizzes (lit ''quiz1'') = Some sample_quiz
   \<and> allowedStudents sample_quiz = Some [lit ''a@x.com'']
   \<and> get_quiz ident_path (lit ''http://h'') sample_quizzes (lit ''quiz1'') (Some (JStr (lit ''b@x.com'')))
       = ReplyError 403 (lit ''not allowed'')
   \<and> get_quiz ident_path (lit ''http://h'') sample_quizzes (lit ''quiz1'') None
       = ReplyError 403 (lit ''not allowed'')
   \<and> (\<exists>url. get_quiz ident_path (lit ''http://h'') sample_quizzes (lit ''quiz1'') (Some (JStr (lit ''a@x.com'')))
       = Reply200 \<lparr> payload_quiz = quiz_object sample_quiz, payload_fileUrl = url \<rparr>)"
proof -
  have s: "sample_quizzes (lit ''quiz1'') = Some sample_quiz"
    by (simp add: sample_quizzes_def lit_def)
  have l: "allowedStudents sample_quiz = Some [lit ''a@x.com''] \<and> [lit ''a@x.com''] \<noteq> []"
    by (simp add: sample_quiz_def)
  show ?thesis
    using s l
      allow_list_gate[where store = sample_quizzes and qid = "lit ''quiz1''" and q = sample_quiz
        and l = "[lit ''a@x.com'']" and email_param = "Some (JStr (lit ''b@x.com''))" and basename = ident_path
        and host = "lit ''http://h''", OF s]
      allow_list_gate[where store = sample_quizzes and qid = "lit ''quiz1''" and q = sample_quiz
        and l = "[lit ''a@x.com'']" and email_param = "None" and basename = ident_path
        and host = "lit ''http://h''", OF s]
      allow_list_gate[where store = sample_quizzes and qid = "lit ''quiz1''" and q = sample_quiz
        and l = "[lit ''a@x.com'']" and email_param = "Some (JStr (lit ''a@x.com''))" and basename = ident_path
        and host = "lit ''http://h''", OF s]
    by (simp add: lit_def)
qed

text \<open>
  The claim as stated fails for an email that is a member of the list and empty: the
  guard \<open>!email\<close> refuses the empty string before the membership test.
\<close>

theorem listed_blank_email_refused:
  "sample_quizzes (lit ''quiz2'') = Some sample_quiz_blank
   \<and> allowedStudents sample_quiz_blank = Some [lit ''a@x.com'', []]
   \<and> includes_email [lit ''a@x.com'', []] (Some (JStr []))
   \<and> get_quiz ident_path (lit ''http://h'') sample_quizzes (lit ''quiz2'') (Some (JStr []))
       = ReplyError 403 (lit ''not allowed'')"
  by (simp add: sample_quizzes_def sample_quiz_blank_def get_quiz_def truthy_opt_def lit_def)

section \<open>Properties of the chat log\<close>

lemma upsert_chat_result:
  assumes "upsert_chat cast toDate doc store = Inr (d, store')"
  shows "cast_value cast TString (chat_id doc) = Some (JStr (sc_id d))"
    and "store' = store(sc_id d \<mapsto> d)"
    and "sc_role d = chat_role doc" and "sc_text d = chat_text doc"
    and "sc_meta d = (case chat_meta doc of
                        None \<Rightarrow> (case store (sc_id d) of None \<Rightarrow> None | Some old \<Rightarrow> sc_meta old)
                      | Some m \<Rightarrow> Some m)"
    and "cast_value cast TString (chat_teacherId doc) = Some (sc_teacherId d)"
    and "stamp_time toDate (chat_timestamp doc) = Some (sc_timestamp d)"
  using assms
  by (auto simp: upsert_chat_def put_field_def Let_def split: option.splits json.splits)

lemma post_chats_cases:
  "(\<exists>s msg. post_chats cast toDate now body store = (ReplyError s msg, store) \<and> s \<noteq> 200)
   \<or> (\<exists>d store'. upsert_chat cast toDate (chat_doc now body) store = Inr (d, store')
        \<and> resolvedText body \<noteq> []
        \<and> truthy_opt (effectiveTeacherId body)
        \<and> post_chats cast toDate now body store = (Reply200 d, store'))"
  by (auto simp: post_chats_def split: sum.splits)

text \<open>
  Claim C9, as the code has it. A call of the handler never removes a stored chat. A
  call that is rejected leaves the collection as it was. A call that is accepted is
  answered with the chat now stored under the id of its document, converted to a
  string; the chat under every other id is unchanged. That chat has the role and the
  text the handler resolved, the payload's \<open>meta\<close> when the payload has one and the
  \<open>meta\<close> stored before under the id otherwise, the teacher id converted to a
  string, and as timestamp the date of the payload's \<open>timestamp\<close>, or the clock
  reading when the payload has none. The call adds an entry when the id is not stored
  yet, and writes over the entry when it is.
\<close>

theorem chats_upsert_by_id:
  "dom store \<subseteq> dom (snd (post_chats cast toDate now body store))
   \<and> (status (fst (post_chats cast toDate now body store)) \<noteq> 200 \<longrightarrow>
        snd (post_chats cast toDate now body store) = store)
   \<and> (status (fst (post_chats cast toDate now body store)) = 200 \<longrightarrow>
        (\<exists>key d. fst (post_chats cast toDate now body store) = Reply200 d
           \<and> sc_id d = key
           \<and> cast_value cast TString (chat_id (chat_doc now body)) = Some (JStr key)
           \<and> snd (post_chats cast toDate now body store) = store(key \<mapsto> d)
           \<and> sc_role d = effectiveRole body
           \<and> sc_text d = resolvedText body
           \<and> sc_meta d =
               (case get_prop body (lit ''meta'') of
                  None \<Rightarrow> (case store key of None \<Rightarrow> None | Some old \<Rightarrow> sc_meta old)
                | Some m \<Rightarrow> Some m)
           \<and> (\<exists>t. effectiveTeacherId body = Some t \<and> truthy t
                  \<and> cast_value cast TString t = Some (sc_teacherId d))
           \<and> Some (sc_timestamp d) =
               (case get_prop body (lit ''timestamp'') of
                  None \<Rightarrow> Some now
                | Some t \<Rightarrow> if truthy t then toDate t else Some now)
           \<and> (\<forall>k. k \<noteq> key \<longrightarrow> snd (post_chats cast toDate now body store) k = store k)))"
  using post_chats_cases[of cast toDate now body store]
proof (elim disjE exE conjE)
  fix s msg
  assume "post_chats cast toDate now body store = (ReplyError s msg, store)" "s \<noteq> 200"
  then show ?thesis by simp
next
  fix d store'
  assume up: "upsert_chat cast toDate (chat_doc now body) store = Inr (d, store')"
    and t: "resolvedText body \<noteq> []"
    and te: "truthy_opt (effectiveTeacherId body)"
    and p: "post_chats cast toDate now body store = (Reply200 d, store')"
  note r = upsert_chat_result[OF up]
  have doc: "chat_role (chat_doc now body) = effectiveRole body"
    "chat_text (chat_doc now body) = resolvedText body"
    "chat_meta (chat_doc now body) = get_prop body (lit ''meta'')"
    using t by (simp_all add: chat_doc_def)
  from te obtain t where t1: "effectiveTeacherId body = Some t" "truthy t"
    by (auto simp: truthy_opt_def split: option.splits)
  then have "chat_teacherId (chat_doc now body) = t" by (simp add: chat_doc_def)
  with r(6) t1 have tid: "\<exists>t. effectiveTeacherId body = Some t \<and> truthy t
      \<and> cast_value cast TString t = Some (sc_teacherId d)" by simp
  have ts: "Some (sc_timestamp d) =
      (case get_prop body (lit ''timestamp'') of
         None \<Rightarrow> Some now
       | Some t \<Rightarrow> if truthy t then toDate t else Some now)"
    using r(7) by (auto simp: chat_doc_def stamp_time_def split: option.splits if_splits)
  show ?thesis
    using r(1,2,3,4,5) tid ts by (simp add: p doc subset_iff domIff)
qed

lemma sample_chats_value:
  "sample_chats = [lit ''m1'' \<mapsto>
      \<lparr> sc_id = lit ''m1'', sc_role = lit ''user'', sc_text = lit ''first'',
        sc_meta = Some (JObj [(lit ''topic'', JStr (lit ''maths''))]),
        sc_teacherId = JStr (lit ''t1''), sc_timestamp = 86400000 \<rparr>]"
  by (simp add: sample_chats_def post_chats_def upsert_chat_def chat_doc_def resolvedText_def
      effectiveRole_def effectiveTeacherId_def js_or_def and_prop_def truthy_opt_def
      cast_value_def put_field_def stamp_time_def sample_toDate_def sample_message1_def
      lit_def trim_def is_ws_def Let_def)

text \<open>
  A message without an id, posted at time 1000 to the sample collection, is stored
  under the generated id \<open>msg_rs\<close> beside the chat \<open>m1\<close>. A message whose
  timestamp is no date is answered with 500, the collection unchanged.
\<close>

theorem chats_upsert_by_id_witness:
  "status (fst (post_chats sample_cast sample_toDate 1000 sample_message3 sample_chats)) = 200
   \<and> map_option sc_text (sample_chats (lit ''m1'')) = Some (lit ''first'')
   \<and> sample_chats (lit ''msg_rs'') = None
   \<and> snd (post_chats sample_cast sample_toDate 1000 sample_message3 sample_chats) (lit ''m1'')
       = sample_chats (lit ''m1'')
   \<and> map_option sc_text
        (snd (post_chats sample_cast sample_toDate 1000 sample_message3 sample_chats) (lit ''msg_rs''))
       = Some (lit ''third'')
   \<and> status (fst (post_chats sample_cast sample_toDate 1000 sample_message4 sample_chats)) = 500
   \<and> snd (post_chats sample_cast sample_toDate 1000 sample_message4 sample_chats) = sample_chats"
proof -
  note c = sample_chats_value
  have p3: "post_chats sample_cast sample_toDate 1000 sample_message3 sample_chats
      = (Reply200 \<lparr> sc_id = lit ''msg_rs'', sc_role = lit ''user'', sc_text = lit ''third'',
            sc_meta = None, sc_teacherId = JStr (lit ''t1''), sc_timestamp = 1000 \<rparr>,
         sample_chats(lit ''msg_rs'' \<mapsto>
           \<lparr> sc_id = lit ''msg_rs'', sc_role = lit ''user'', sc_text = lit ''third'',
             sc_meta = None, sc_teacherId = JStr (lit ''t1''), sc_timestamp = 1000 \<rparr>))"
    by (simp add: c post_chats_def upsert_chat_def chat_doc_def resolvedText_def
        effectiveRole_def effectiveTeacherId_def js_or_def and_prop_def truthy_opt_def
        cast_value_def put_field_def stamp_time_def sample_message3_def digit36_def
        lit_def trim_def is_ws_def Let_def)
  have p4: "post_chats sample_cast sample_toDate 1000 sample_message4 sample_chats
      = (ReplyError 500 (lit ''Cast to Date failed''), sample_chats)"
    by (simp add: post_chats_def upsert_chat_def chat_doc_def resolvedText_def
        effectiveRole_def effectiveTeacherId_def js_or_def and_prop_def truthy_opt_def
        cast_value_def put_field_def stamp_time_def sample_toDate_def sample_message4_def
        lit_def trim_def is_ws_def Let_def)
  show ?thesis
    using chats_upsert_by_id[of sample_chats sample_cast sample_toDate 1000 sample_message3]
      chats_upsert_by_id[of sample_chats sample_cast sample_toDate 1000 sample_message4]
    by (simp add: p3 p4) (simp add: c lit_def)
qed

text \<open>
  The claim as stated fails: a second accepted message under the id \<open>m1\<close> writes
  its text over the stored one, keeps the stored \<open>meta\<close>, and the collection holds
  no more entries than before.
\<close>

theorem chat_replaced_under_same_id:
  "map_option sc_text (sample_chats (lit ''m1'')) = Some (lit ''first'')
   \<and> status (fst (post_chats sample_cast sample_toDate 2000 sample_message2 sample_chats)) = 200
   \<and> map_option sc_text
        (snd (post_chats sample_cast sample_toDate 2000 sample_message2 sample_chats) (lit ''m1''))
       = Some (lit ''second'')
   \<and> get_prop sample_message2 (lit ''meta'') = None
   \<and> map_option sc_meta
        (snd (post_chats sample_cast sample_toDate 2000 sample_message2 sample_chats) (lit ''m1''))
       = Some (Some (JObj [(lit ''topic'', JStr (lit ''maths''))]))
   \<and> dom (snd (post_chats sample_cast sample_toDate 2000 sample_message2 sample_chats))
       = dom sample_chats"
proof -
  note c = sample_chats_value
  show ?thesis
    by (simp add: c post_chats_def upsert_chat_def chat_doc_def resolvedText_def
        effectiveRole_def effectiveTeacherId_def js_or_def and_prop_def truthy_opt_def
        cast_value_def put_field_def stamp_time_def sample_message2_def
        lit_def trim_def is_ws_def Let_def)
qed

section \<open>Properties of the response normalizer\<close>

lemma parseJsonLenient_first_success:
  "text \<noteq> [] \<Longrightarrow>
   parseJsonLenient parse text =
     (case first_success parse
             [Some text, Some (stripCodeFences text), braces_candidate text, fenced_candidate text] [] of
        (Some v, calls) \<Rightarrow> (v, calls)
      | (None, calls) \<Rightarrow> (JNull, calls))"
  by (cases "braces_candidate text"; cases "fenced_candidate text")
     (simp_all add: parseJsonLenient_def try_parse_def split: option.splits)

lemma parseJsonLenient_all_fail:
  "fst (first_success parse
          [Some text, Some (stripCodeFences text), braces_candidate text, fenced_candidate text] [])
     = None \<Longrightarrow>
   fst (parseJsonLenient parse text) = JNull"
proof (cases "text = []")
  case True
  then show ?thesis by (simp add: parseJsonLenient_def)
next
  case False
  assume "fst (first_success parse
          [Some text, Some (stripCodeFences text), braces_candidate text, fenced_candidate text] [])
     = None"
  then show ?thesis
    by (cases "first_success parse
          [Some text, Some (stripCodeFences text), braces_candidate text, fenced_candidate text] []")
       (simp add: parseJsonLenient_first_success[OF False])
qed

subsection \<open>stripCodeFences\<close>

lemma starts_with_iff: "starts_with p s \<longleftrightarrow> (\<exists>r. s = p @ r)"
proof
  assume "starts_with p s"
  then have "s = p @ drop (length p) s"
    by (metis append_take_drop_id starts_with_def)
  then show "\<exists>r. s = p @ r" ..
next
  assume "\<exists>r. s = p @ r"
  then show "starts_with p s" by (auto simp: starts_with_def)
qed

lemma ends_with_iff: "ends_with p s \<longleftrightarrow> (\<exists>b. s = b @ p)"
proof
  assume "ends_with p s"
  then have "s = take (length s - length p) s @ p"
    by (metis append_take_drop_id ends_with_def)
  then show "\<exists>b. s = b @ p" ..
next
  assume "\<exists>b. s = b @ p"
  then show "ends_with p s" by (auto simp: ends_with_def)
qed

lemma tail_fence:
  "(if ends_with (lit ''```'') (b @ lit ''```'') then take (length (b @ lit ''```'') - 3) (b @ lit ''```'')
    else b @ lit ''```'') = b"
  by (simp add: ends_with_def lit_def)

lemma tail_none:
  "(\<forall>b. a \<noteq> b @ lit ''```'') \<Longrightarrow>
   (if ends_with (lit ''```'') a then take (length a - 3) a else a) = a"
  by (simp add: ends_with_iff)

lemma strip_no_open:
  assumes "\<forall>r. s \<noteq> lit ''```'' @ r"
  shows "stripCodeFences s = (if ends_with (lit ''```'') s then take (length s - 3) s else s)"
proof -
  from assms have "\<not> starts_with (lit ''```'') s" by (simp add: starts_with_iff)
  then show ?thesis
    by (cases "s = []") (simp_all add: stripCodeFences_def ends_with_def lit_def Let_def)
qed

lemma dropWhile_ws:
  assumes "\<forall>c\<in>set ws. is_ws c" and "rest = [] \<or> \<not> is_ws (hd rest)"
  shows "dropWhile is_ws (ws @ rest) = rest"
proof -
  have "dropWhile is_ws (ws @ rest) = dropWhile is_ws rest"
    using assms(1) by (simp add: dropWhile_append2)
  also have "\<dots> = rest" using assms(2) by (cases rest) auto
  finally show ?thesis .
qed

lemma strip_open:
  assumes s: "s = lit ''```'' @ tag @ ws @ rest"
    and tag: "map lower tag = lit ''html'' \<or> map lower tag = lit ''json''
       \<or> (tag = [] \<and> map lower (take 4 (ws @ rest)) \<noteq> lit ''html''
                     \<and> map lower (take 4 (ws @ rest)) \<noteq> lit ''json'')"
    and ws: "\<forall>c\<in>set ws. is_ws c"
    and rest: "rest = [] \<or> \<not> is_ws (hd rest)"
  shows "stripCodeFences s = (if ends_with (lit ''```'') rest then take (length rest - 3) rest else rest)"
proof -
  have low: "map lower (lit ''html'') = lit ''html''" "map lower (lit ''json'') = lit ''json''"
    by (simp_all add: lit_def lower_def)
  have ne: "s \<noteq> []" and st: "starts_with (lit ''```'') s" and dr: "drop 3 s = tag @ ws @ rest"
    using s by (simp_all add: starts_with_def lit_def)
  have len: "length (lit ''html'') = 4" "length (lit ''json'') = 4"
    by (simp_all add: lit_def)
  have ci: "starts_with_ci (lit ''html'') x \<longleftrightarrow> map lower (take 4 x) = lit ''html''"
    "starts_with_ci (lit ''json'') x \<longleftrightarrow> map lower (take 4 x) = lit ''json''" for x
    by (simp_all only: starts_with_ci_def len low)
  have "(if starts_with_ci (lit ''html'') (tag @ ws @ rest) \<or> starts_with_ci (lit ''json'') (tag @ ws @ rest)
         then drop 4 (tag @ ws @ rest) else tag @ ws @ rest) = ws @ rest"
  proof -
    consider (t) "map lower tag = lit ''html'' \<or> map lower tag = lit ''json''"
      | (n) "tag = []" "map lower (take 4 (ws @ rest)) \<noteq> lit ''html''"
            "map lower (take 4 (ws @ rest)) \<noteq> lit ''json''"
      using tag by blast
    then show ?thesis
    proof cases
      case t
      then have l: "length tag = 4" using len by (metis length_map)
      then have tk: "take 4 (tag @ ws @ rest) = tag" "drop 4 (tag @ ws @ rest) = ws @ rest"
        by simp_all
      from t show ?thesis by (simp only: ci tk if_True)
    next
      case n
      from n(2,3) have "\<not> (starts_with_ci (lit ''html'') (ws @ rest)
          \<or> starts_with_ci (lit ''json'') (ws @ rest))"
        by (simp only: ci) simp
      then show ?thesis by (simp only: n(1) append_Nil if_False)
    qed
  qed
  then show ?thesis
    using ne st dr dropWhile_ws[OF ws rest]
    by (simp add: stripCodeFences_def Let_def)
qed

subsection \<open>clean_text\<close>

lemma clean_text_char:
  "clean_text [ch] =
     (if ch = 0x201C \<or> ch = 0x201D then [0x22]
      else if ch = 0x2018 \<or> ch = 0x2019 then [0x27]
      else if ch \<le> 0x1F \<or> (0x7F \<le> ch \<and> ch \<le> 0x9F) then []
      else [ch])"
  by (auto simp: clean_text_def is_control_def)

lemma clean_text_append: "clean_text (a @ b) = clean_text a @ clean_text b"
  by (simp add: clean_text_def)

subsection \<open>The slice of the third strategy\<close>

lemma indexOf_Some:
  "indexOf c xs = Some i \<Longrightarrow> i < length xs \<and> xs ! i = c \<and> c \<notin> set (take i xs)"
proof (induction xs arbitrary: i)
  case Nil
  then show ?case by simp
next
  case (Cons x xs)
  show ?case
  proof (cases "x = c")
    case True
    with Cons.prems show ?thesis by simp
  next
    case False
    with Cons.prems obtain j where j: "indexOf c xs = Some j" "i = Suc j"
      by (auto split: if_splits)
    from Cons.IH[OF j(1)] False j(2) show ?thesis by simp
  qed
qed

lemma indexOf_append: "c \<notin> set pre \<Longrightarrow> indexOf c (pre @ c # rest) = Some (length pre)"
  by (induction pre) auto

lemma lastIndexOf_Some:
  assumes "lastIndexOf c s = Some j"
  shows "j < length s \<and> s ! j = c \<and> c \<notin> set (drop (Suc j) s)"
proof -
  from assms obtain k where k: "indexOf c (rev s) = Some k" "j = length s - 1 - k"
    by (auto simp: lastIndexOf_def)
  from indexOf_Some[OF k(1)]
  have kl: "k < length s" and nth: "rev s ! k = c" and notin: "c \<notin> set (take k (rev s))"
    by simp_all
  from kl k(2) have j: "j < length s" "Suc j = length s - k" by simp_all
  from nth kl k(2) have "s ! j = c" by (simp add: rev_nth)
  moreover from notin have "c \<notin> set (drop (Suc j) s)"
    by (simp add: take_rev j(2))
  ultimately show ?thesis using j(1) by simp
qed

lemma lastIndexOf_append:
  "c \<notin> set post \<Longrightarrow> lastIndexOf c (pre @ c # post) = Some (length pre)"
proof -
  assume "c \<notin> set post"
  then have "indexOf c (rev post @ c # rev pre) = Some (length (rev post))"
    by (intro indexOf_append) simp
  then show ?thesis by (simp add: lastIndexOf_def)
qed

lemma braces_candidate_slice:
  assumes "braces_candidate text = Some c"
  shows "\<exists>pre mid post. clean_text text = pre @ c @ post \<and> c = 0x7B # mid @ [0x7D]
           \<and> 0x7B \<notin> set pre \<and> 0x7D \<notin> set post"
proof -
  define t where "t = clean_text text"
  from assms obtain a b where a: "indexOf 0x7B t = Some a" and b: "lastIndexOf 0x7D t = Some b"
    and ab: "a < b" and c: "c = take (b + 1 - a) (drop a t)"
    by (auto simp: braces_candidate_def t_def Let_def split: option.splits if_splits)
  from indexOf_Some[OF a] have a1: "a < length t" "t ! a = 0x7B" "0x7B \<notin> set (take a t)"
    by simp_all
  from lastIndexOf_Some[OF b] have b1: "b < length t" "t ! b = 0x7D" "0x7D \<notin> set (drop (Suc b) t)"
    by simp_all
  have split: "t = take a t @ c @ drop (Suc b) t"
  proof -
    have "drop a t = take (b + 1 - a) (drop a t) @ drop (b + 1 - a) (drop a t)"
      by (rule append_take_drop_id[symmetric])
    moreover have "drop (b + 1 - a) (drop a t) = drop (Suc b) t"
      using ab by simp
    ultimately have "drop a t = c @ drop (Suc b) t" using c by simp
    then have "take a t @ drop a t = take a t @ c @ drop (Suc b) t" by simp
    then show ?thesis by simp
  qed
  have len: "length c = b + 1 - a" using c b1(1) ab by simp
  have ne: "c \<noteq> []" using len ab by auto
  have h: "hd c = 0x7B"
    using c a1(1,2) ab by (simp add: hd_drop_conv_nth)
  have "last c = c ! (b - a)" using len ne by (simp add: last_conv_nth)
  also have "\<dots> = t ! b" using c ab b1(1) by simp
  finally have l: "last c = 0x7D" using b1(2) by simp
  have "tl c \<noteq> []" using len ab by (cases c) auto
  then have "c = hd c # butlast (tl c) @ [last c]"
    using ne by (metis append_butlast_last_id last_tl list.collapse)
  with h l have shape: "c = 0x7B # butlast (tl c) @ [0x7D]" by simp
  have e: "clean_text text = take a t @ c @ drop (Suc b) t"
    unfolding t_def[symmetric] by (rule split)
  from e a1(3) b1(3) shape show ?thesis by blast
qed

lemma braces_candidate_complete:
  assumes "clean_text text = pre @ (0x7B # mid @ [0x7D]) @ post"
    and "0x7B \<notin> set pre" and "0x7D \<notin> set post"
  shows "braces_candidate text = Some (0x7B # mid @ [0x7D])"
proof -
  have i: "indexOf 0x7B (clean_text text) = Some (length pre)"
    using assms(1) indexOf_append[OF assms(2), of "mid @ [0x7D] @ post"] by simp
  have "clean_text text = (pre @ 0x7B # mid) @ 0x7D # post" using assms(1) by simp
  then have l: "lastIndexOf 0x7D (clean_text text) = Some (length (pre @ 0x7B # mid))"
    using lastIndexOf_append[OF assms(3), of "pre @ 0x7B # mid"] by simp
  show ?thesis
    by (simp add: braces_candidate_def Let_def i l) (simp add: assms(1))
qed

lemma braces_candidate_iff:
  "braces_candidate text = Some c \<longleftrightarrow>
     (\<exists>pre mid post. clean_text text = pre @ c @ post \<and> c = 0x7B # mid @ [0x7D]
        \<and> 0x7B \<notin> set pre \<and> 0x7D \<notin> set post)"
  using braces_candidate_slice braces_candidate_complete by blast


subsection \<open>The block of the fourth strategy\<close>

lemma starts_with_ci_iff:
  "starts_with_ci p s \<longleftrightarrow> (\<exists>t r. s = t @ r \<and> map lower t = map lower p)"
proof
  assume "starts_with_ci p s"
  then have "map lower (take (length p) s) = map lower p" by (simp add: starts_with_ci_def)
  moreover have "s = take (length p) s @ drop (length p) s" by simp
  ultimately show "\<exists>t r. s = t @ r \<and> map lower t = map lower p" by blast
next
  assume "\<exists>t r. s = t @ r \<and> map lower t = map lower p"
  then obtain t r where s: "s = t @ r" and m: "map lower t = map lower p" by blast
  from m have "length t = length p" by (rule map_eq_imp_length_eq)
  with s m show "starts_with_ci p s" by (simp add: starts_with_ci_def)
qed

lemma after_ci_sound:
  "after_ci p s = Some rest \<Longrightarrow>
     \<exists>pre tag. s = pre @ tag @ rest \<and> map lower tag = map lower p
       \<and> (\<forall>a t b. s = a @ t @ b \<and> map lower t = map lower p \<longrightarrow> length pre \<le> length a)"
proof (induction s)
  case Nil
  then show ?case by (auto split: if_splits)
next
  case (Cons x xs)
  show ?case
  proof (cases "starts_with_ci p (x # xs)")
    case True
    with Cons.prems have r: "rest = drop (length p) (x # xs)" by simp
    from True have "map lower (take (length p) (x # xs)) = map lower p"
      by (simp add: starts_with_ci_def)
    moreover have "x # xs = [] @ take (length p) (x # xs) @ rest"
      using r by simp
    ultimately show ?thesis by (metis le0 list.size(3))
  next
    case False
    with Cons.prems have "after_ci p xs = Some rest" by simp
    from Cons.IH[OF this] obtain pre tag where
      xs: "xs = pre @ tag @ rest" and m: "map lower tag = map lower p"
      and least: "\<forall>a t b. xs = a @ t @ b \<and> map lower t = map lower p \<longrightarrow> length pre \<le> length a"
      by blast
    have "length (x # pre) \<le> length a"
      if h: "x # xs = a @ t @ b" "map lower t = map lower p" for a t b
    proof (cases a)
      case Nil
      with h have "starts_with_ci p (x # xs)"
        unfolding starts_with_ci_iff by (metis append_Nil)
      with False show ?thesis by simp
    next
      case (Cons y a')
      with h(1) have "xs = a' @ t @ b" by simp
      with least h(2) have "length pre \<le> length a'" by blast
      with Cons show ?thesis by simp
    qed
    moreover have "x # xs = (x # pre) @ tag @ rest" using xs by simp
    ultimately show ?thesis using m by blast
  qed
qed

lemma after_ci_complete:
  assumes "s = pre @ tag @ rest" and "map lower tag = map lower p"
    and "\<forall>a t b. s = a @ t @ b \<and> map lower t = map lower p \<longrightarrow> length pre \<le> length a"
  shows "after_ci p s = Some rest"
  using assms
proof (induction pre arbitrary: s)
  case Nil
  from Nil(2) have len: "length tag = length p" by (rule map_eq_imp_length_eq)
  show ?case
  proof (cases s)
    case Nil
    with \<open>s = [] @ tag @ rest\<close> len show ?thesis by simp
  next
    case (Cons x xs)
    have sw: "starts_with_ci p s"
      unfolding starts_with_ci_iff using Nil.prems(1,2) by auto
    have "drop (length p) s = rest" using Nil.prems(1) len by simp
    with Cons sw show ?thesis by simp
  qed
next
  case (Cons x pre')
  let ?xs = "pre' @ tag @ rest"
  have s: "s = x # ?xs" using Cons.prems(1) by simp
  have no: "\<not> starts_with_ci p s"
  proof
    assume "starts_with_ci p s"
    then obtain t r where "s = [] @ t @ r" "map lower t = map lower p"
      unfolding starts_with_ci_iff by auto
    with Cons.prems(3) have "length (x # pre') \<le> length ([]::jsstring)" by blast
    then show False by simp
  qed
  have least: "\<forall>a t b. ?xs = a @ t @ b \<and> map lower t = map lower p \<longrightarrow> length pre' \<le> length a"
  proof (intro allI impI)
    fix a t b
    assume h: "?xs = a @ t @ b \<and> map lower t = map lower p"
    then have "s = (x # a) @ t @ b" using s by simp
    with Cons.prems(3) h have "length (x # pre') \<le> length (x # a)" by blast
    then show "length pre' \<le> length a" by simp
  qed
  have "after_ci p ?xs = Some rest"
    by (rule Cons.IH[OF refl Cons.prems(2) least])
  with no s show ?case by simp
qed

lemma before_first_sound:
  "before_first p s = Some b \<Longrightarrow>
     \<exists>post. s = b @ p @ post \<and> (\<forall>a r. s = a @ p @ r \<longrightarrow> length b \<le> length a)"
proof (induction s arbitrary: b)
  case Nil
  then show ?case by (auto split: if_splits)
next
  case (Cons x xs)
  show ?case
  proof (cases "starts_with p (x # xs)")
    case True
    with Cons.prems have "b = []" by simp
    moreover from True obtain r where "x # xs = p @ r" unfolding starts_with_iff ..
    ultimately show ?thesis by auto
  next
    case False
    with Cons.prems obtain b' where b': "before_first p xs = Some b'" "b = x # b'"
      by auto
    from Cons.IH[OF b'(1)] obtain post where xs: "xs = b' @ p @ post"
      and least: "\<forall>a r. xs = a @ p @ r \<longrightarrow> length b' \<le> length a" by blast
    have "length b \<le> length a" if h: "x # xs = a @ p @ r" for a r
    proof (cases a)
      case Nil
      with h have "starts_with p (x # xs)" unfolding starts_with_iff by auto
      with False show ?thesis by simp
    next
      case (Cons y a')
      with h have "xs = a' @ p @ r" by simp
      with least have "length b' \<le> length a'" by blast
      with Cons b'(2) show ?thesis by simp
    qed
    moreover have "x # xs = b @ p @ post" using xs b'(2) by simp
    ultimately show ?thesis by blast
  qed
qed

lemma before_first_complete:
  assumes "s = b @ p @ post" and "\<forall>a r. s = a @ p @ r \<longrightarrow> length b \<le> length a"
  shows "before_first p s = Some b"
  using assms
proof (induction b arbitrary: s)
  case Nil
  show ?case
  proof (cases s)
    case Nil
    with \<open>s = [] @ p @ post\<close> show ?thesis by simp
  next
    case (Cons x xs)
    have "starts_with p s" unfolding starts_with_iff using Nil.prems(1) by auto
    with Cons show ?thesis by simp
  qed
next
  case (Cons x b')
  let ?xs = "b' @ p @ post"
  have s: "s = x # ?xs" using Cons.prems(1) by simp
  have no: "\<not> starts_with p s"
  proof
    assume "starts_with p s"
    then obtain r where "s = [] @ p @ r" unfolding starts_with_iff by auto
    with Cons.prems(2) have "length (x # b') \<le> length ([]::jsstring)" by blast
    then show False by simp
  qed
  have least: "\<forall>a r. ?xs = a @ p @ r \<longrightarrow> length b' \<le> length a"
  proof (intro allI impI)
    fix a r
    assume "?xs = a @ p @ r"
    then have "s = (x # a) @ p @ r" using s by simp
    with Cons.prems(2) have "length (x # b') \<le> length (x # a)" by blast
    then show "length b' \<le> length a" by simp
  qed
  have "before_first p ?xs = Some b'" by (rule Cons.IH[OF refl least])
  with no s show ?case by simp
qed

lemma lower_json: "map lower (lit ''```json'') = lit ''```json''"
  by (simp add: lit_def lower_def)

lemma fenced_candidate_iff:
  "fenced_candidate text = Some c \<longleftrightarrow>
     (\<exists>pre tag post. text = pre @ tag @ c @ lit ''```'' @ post \<and> map lower tag = lit ''```json''
        \<and> (\<forall>a t b. text = a @ t @ b \<and> map lower t = lit ''```json'' \<longrightarrow> length pre \<le> length a)
        \<and> (\<forall>a b. c @ lit ''```'' @ post = a @ lit ''```'' @ b \<longrightarrow> length c \<le> length a))"
proof
  assume "fenced_candidate text = Some c"
  then obtain rest where r: "after_ci (lit ''```json'') text = Some rest"
    and b: "before_first (lit ''```'') rest = Some c"
    by (auto simp: fenced_candidate_def split: option.splits)
  from after_ci_sound[OF r] obtain pre tag where
    t: "text = pre @ tag @ rest" "map lower tag = lit ''```json''"
       "\<forall>a t b. text = a @ t @ b \<and> map lower t = lit ''```json'' \<longrightarrow> length pre \<le> length a"
    unfolding lower_json by blast
  from before_first_sound[OF b] obtain post where
    p: "rest = c @ lit ''```'' @ post"
       "\<forall>a b. rest = a @ lit ''```'' @ b \<longrightarrow> length c \<le> length a" by blast
  from t p show "\<exists>pre tag post. text = pre @ tag @ c @ lit ''```'' @ post \<and> map lower tag = lit ''```json''
        \<and> (\<forall>a t b. text = a @ t @ b \<and> map lower t = lit ''```json'' \<longrightarrow> length pre \<le> length a)
        \<and> (\<forall>a b. c @ lit ''```'' @ post = a @ lit ''```'' @ b \<longrightarrow> length c \<le> length a)"
    by blast
next
  assume "\<exists>pre tag post. text = pre @ tag @ c @ lit ''```'' @ post \<and> map lower tag = lit ''```json''
        \<and> (\<forall>a t b. text = a @ t @ b \<and> map lower t = lit ''```json'' \<longrightarrow> length pre \<le> length a)
        \<and> (\<forall>a b. c @ lit ''```'' @ post = a @ lit ''```'' @ b \<longrightarrow> length c \<le> length a)"
  then obtain pre tag post where
    t: "text = pre @ tag @ (c @ lit ''```'' @ post)" and m: "map lower tag = lit ''```json''"
    and l1: "\<forall>a t b. text = a @ t @ b \<and> map lower t = lit ''```json'' \<longrightarrow> length pre \<le> length a"
    and l2: "\<forall>a b. c @ lit ''```'' @ post = a @ lit ''```'' @ b \<longrightarrow> length c \<le> length a"
    by auto
  have "after_ci (lit ''```json'') text = Some (c @ lit ''```'' @ post)"
    using after_ci_complete[OF t, of "lit ''```json''"] m l1 unfolding lower_json by blast
  moreover have "before_first (lit ''```'') (c @ lit ''```'' @ post) = Some c"
    by (rule before_first_complete[OF refl l2])
  ultimately show "fenced_candidate text = Some c" by (simp add: fenced_candidate_def)
qed

text \<open>
  Claim C2. On a text that is not empty, \<open>parseJsonLenient\<close> returns what the four
  strategies give when they are attempted in order and the first success stops the
  search, and it calls \<open>JSON.parse\<close> on exactly the candidates attempted up to
  there. When the text itself is valid JSON, the result is its value and \<open>JSON.parse\<close>
  was called once, on the text. The empty text is answered with \<open>null\<close> without a
  call, which is also what the four strategies give, since \<open>JSON.parse\<close> rejects the
  empty text.

  The candidates are these. The first is the text. The second is the text without its
  fences: of a text that does not open with three backticks, the text without three
  backticks at its very end; of a text that opens with three backticks, what follows
  them, an optional tag \<open>html\<close> or \<open>json\<close> in any case and the whitespace behind
  it, again without three backticks at the very end. The third is a slice of the
  cleaned text, which is the text, code unit by code unit, with the typographic double
  quotes replaced by \<open>"\<close>, the typographic single quotes by \<open>'\<close> and the control
  characters removed: the slice from its first \<open>{\<close> to its last \<open>}\<close>, which
  exists exactly when the first \<open>{\<close> is before the last \<open>}\<close>. The fourth is the
  text between the leftmost \<open>```json\<close>, in any case, and the first \<open>```\<close> behind
  it, which exists exactly when there are such fences.
\<close>

theorem parse_strategies_in_order:
  "(text \<noteq> [] \<longrightarrow>
      parseJsonLenient parse text =
        (case first_success parse
                [Some text, Some (stripCodeFences text), braces_candidate text, fenced_candidate text] [] of
           (Some v, calls) \<Rightarrow> (v, calls)
         | (None, calls) \<Rightarrow> (JNull, calls)))
   \<and> (text \<noteq> [] \<and> parse text = Some v \<longrightarrow> parseJsonLenient parse text = (v, [text]))
   \<and> (parse [] = None \<longrightarrow>
        fst (parseJsonLenient parse text) =
          (case fst (first_success parse
                       [Some text, Some (stripCodeFences text), braces_candidate text, fenced_candidate text] [])
           of Some v \<Rightarrow> v | None \<Rightarrow> JNull))
   \<and> ((\<forall>r. text \<noteq> lit ''```'' @ r) \<longrightarrow>
         (text = b @ lit ''```'' \<longrightarrow> stripCodeFences text = b)
         \<and> ((\<forall>b'. text \<noteq> b' @ lit ''```'') \<longrightarrow> stripCodeFences text = text))
   \<and> (text = lit ''```'' @ tag @ ws @ rest
        \<and> (map lower tag = lit ''html'' \<or> map lower tag = lit ''json''
             \<or> (tag = [] \<and> map lower (take 4 (ws @ rest)) \<noteq> lit ''html''
                  \<and> map lower (take 4 (ws @ rest)) \<noteq> lit ''json''))
        \<and> (\<forall>c \<in> set ws. is_ws c) \<and> (rest = [] \<or> \<not> is_ws (hd rest)) \<longrightarrow>
         (rest = b @ lit ''```'' \<longrightarrow> stripCodeFences text = b)
         \<and> ((\<forall>b'. rest \<noteq> b' @ lit ''```'') \<longrightarrow> stripCodeFences text = rest))
   \<and> clean_text [] = []
   \<and> (\<forall>x y. clean_text (x @ y) = clean_text x @ clean_text y)
   \<and> (\<forall>ch. clean_text [ch] =
         (if ch = 0x201C \<or> ch = 0x201D then [0x22]
          else if ch = 0x2018 \<or> ch = 0x2019 then [0x27]
          else if ch \<le> 0x1F \<or> (0x7F \<le> ch \<and> ch \<le> 0x9F) then []
          else [ch]))
   \<and> (braces_candidate text = Some c \<longleftrightarrow>
        (\<exists>pre mid post. clean_text text = pre @ c @ post \<and> c = 0x7B # mid @ [0x7D]
           \<and> 0x7B \<notin> set pre \<and> 0x7D \<notin> set post))
   \<and> (fenced_candidate text = Some c \<longleftrightarrow>
        (\<exists>pre t post. text = pre @ t @ c @ lit ''```'' @ post \<and> map lower t = lit ''```json''
           \<and> (\<forall>x t' y. text = x @ t' @ y \<and> map lower t' = lit ''```json'' \<longrightarrow> length pre \<le> length x)
           \<and> (\<forall>x y. c @ lit ''```'' @ post = x @ lit ''```'' @ y \<longrightarrow> length c \<le> length x)))"
proof -
  let ?cands = "[Some text, Some (stripCodeFences text), braces_candidate text, fenced_candidate text]"
  have s1: "text \<noteq> [] \<and> parse text = Some v \<longrightarrow> parseJsonLenient parse text = (v, [text])"
    by (simp add: parseJsonLenient_def try_parse_def)
  have s2: "text \<noteq> [] \<longrightarrow>
      parseJsonLenient parse text =
        (case first_success parse ?cands [] of
           (Some v, calls) \<Rightarrow> (v, calls)
         | (None, calls) \<Rightarrow> (JNull, calls))"
    using parseJsonLenient_first_success by blast
  have s3: "parse [] = None \<longrightarrow>
        fst (parseJsonLenient parse text) =
          (case fst (first_success parse ?cands []) of Some v \<Rightarrow> v | None \<Rightarrow> JNull)"
  proof (cases "text = []")
    case True
    then show ?thesis
      by (simp add: parseJsonLenient_def stripCodeFences_def braces_candidate_def clean_text_def
          fenced_candidate_def lit_def)
  next
    case False
    show ?thesis
      by (cases "first_success parse ?cands []")
         (simp add: parseJsonLenient_first_success[OF False] split: option.splits)
  qed
  have s4: "(\<forall>r. text \<noteq> lit ''```'' @ r) \<longrightarrow>
         (text = b @ lit ''```'' \<longrightarrow> stripCodeFences text = b)
         \<and> ((\<forall>b'. text \<noteq> b' @ lit ''```'') \<longrightarrow> stripCodeFences text = text)"
    using strip_no_open[of "text"] tail_fence[of b] tail_none[of "text"] by auto
  have s5: "text = lit ''```'' @ tag @ ws @ rest
        \<and> (map lower tag = lit ''html'' \<or> map lower tag = lit ''json''
             \<or> (tag = [] \<and> map lower (take 4 (ws @ rest)) \<noteq> lit ''html''
                  \<and> map lower (take 4 (ws @ rest)) \<noteq> lit ''json''))
        \<and> (\<forall>c \<in> set ws. is_ws c) \<and> (rest = [] \<or> \<not> is_ws (hd rest)) \<longrightarrow>
         (rest = b @ lit ''```'' \<longrightarrow> stripCodeFences text = b)
         \<and> ((\<forall>b'. rest \<noteq> b' @ lit ''```'') \<longrightarrow> stripCodeFences text = rest)"
    using strip_open[of "text" tag ws rest] tail_fence[of b] tail_none[of rest] by auto
  have s6: "clean_text [] = []" by (simp add: clean_text_def)
  have s7: "\<forall>x y. clean_text (x @ y) = clean_text x @ clean_text y"
    by (simp add: clean_text_append)
  have s8: "\<forall>ch. clean_text [ch] =
         (if ch = 0x201C \<or> ch = 0x201D then [0x22]
          else if ch = 0x2018 \<or> ch = 0x2019 then [0x27]
          else if ch \<le> 0x1F \<or> (0x7F \<le> ch \<and> ch \<le> 0x9F) then []
          else [ch])"
    using clean_text_char by blast
  note s9 = braces_candidate_iff[of "text" c]
  note s10 = fenced_candidate_iff[of "text" c]
  show ?thesis
    by (intro conjI s1 s2 s3 s4 s5 s6 s7 s8 s9 s10)
qed

text \<open>
  The text \<open>[]\<close> is valid JSON and is parsed directly, with one call. The fenced
  array is parsed by the second strategy, from the text without its fences. The object
  in typographic quotes is parsed by the third strategy, from the slice of the cleaned
  text, after the first two calls failed on the text itself. The block tagged
  \<open>JSON\<close> is parsed by the fourth strategy: the text without its opening fence is
  no JSON, and the braces behind the block give the third strategy no candidate.
\<close>

theorem parse_strategies_in_order_witness:
  \<open>lit ''[]'' \<noteq> [] \<and> sample_parse (lit ''[]'') = Some (JArr [])
   \<and> parseJsonLenient sample_parse (lit ''[]'') = (JArr [], [lit ''[]''])
   \<and> stripCodeFences sample_fenced_text = lit ''[]''
   \<and> parseJsonLenient sample_parse sample_fenced_text = (JArr [], [sample_fenced_text, lit ''[]''])
   \<and> stripCodeFences sample_smart_text = sample_smart_text
   \<and> clean_text sample_smart_text = lit ''Quiz: {"a":"b"} done''
   \<and> braces_candidate sample_smart_text = Some (lit ''{"a":"b"}'')
   \<and> parseJsonLenient sample_parse sample_smart_text
       = (JObj [(lit ''a'', JStr (lit ''b''))],
          [sample_smart_text, sample_smart_text, lit ''{"a":"b"}''])
   \<and> stripCodeFences sample_block_text = lit ''[]``` }{''
   \<and> braces_candidate sample_block_text = None
   \<and> fenced_candidate sample_block_text = Some (lit '' []'')
   \<and> parseJsonLenient sample_parse sample_block_text
       = (JArr [], [sample_block_text, lit ''[]``` }{'', lit '' []''])\<close>
proof -
  have a: "lit ''[]'' \<noteq> [] \<and> sample_parse (lit ''[]'') = Some (JArr [])"
    by (simp add: sample_parse_def lit_def)
  have ws: "is_ws 0x20" "\<not> is_ws 0x5B" by (simp_all add: is_ws_def)
  have f1: "stripCodeFences sample_fenced_text = lit ''[]''"
    using parse_strategies_in_order[of sample_fenced_text sample_parse "JArr []" "lit ''[]''"
        "lit ''json''" "lit '' ''" "lit ''[]```''" "[]"] ws
    by (simp add: sample_fenced_text_def lit_def lower_def)
  have f2: "braces_candidate sample_fenced_text = None" "fenced_candidate sample_fenced_text = Some (lit '' []'')"
    by (simp_all add: sample_fenced_text_def braces_candidate_def clean_text_def is_control_def
        fenced_candidate_def starts_with_ci_def starts_with_def lower_def lit_def)
  have f3: "parseJsonLenient sample_parse sample_fenced_text = (JArr [], [sample_fenced_text, lit ''[]''])"
    using parse_strategies_in_order[of sample_fenced_text sample_parse "JArr []" "[]" "[]" "[]" "[]" "[]"]
    unfolding f1 f2
    by (simp add: sample_fenced_text_def sample_parse_def lit_def)
  have g0: "\<forall>r. sample_smart_text \<noteq> lit ''```'' @ r" "\<forall>b'. sample_smart_text \<noteq> b' @ lit ''```''"
    by (simp_all add: sample_smart_text_def lit_def)
  have g1: "stripCodeFences sample_smart_text = sample_smart_text"
    using parse_strategies_in_order[of sample_smart_text sample_parse "JNull" "[]" "[]" "[]" "[]" "[]"] g0
    by blast
  have g2: \<open>clean_text sample_smart_text = lit ''Quiz: {"a":"b"} done''\<close>
    by (simp add: sample_smart_text_def clean_text_def is_control_def lit_def)
  have g3: \<open>braces_candidate sample_smart_text = Some (lit ''{"a":"b"}'')\<close>
  proof -
    have \<open>\<exists>pre mid post. lit ''Quiz: {"a":"b"} done'' = pre @ lit ''{"a":"b"}'' @ post
            \<and> lit ''{"a":"b"}'' = 0x7B # mid @ [0x7D] \<and> 0x7B \<notin> set pre \<and> 0x7D \<notin> set post\<close>
      by (rule exI[of _ "lit ''Quiz: ''"], rule exI[of _ \<open>lit ''"a":"b"''\<close>],
          rule exI[of _ "lit '' done''"]) (simp add: lit_def)
    then show ?thesis
      using parse_strategies_in_order[of sample_smart_text sample_parse "JNull" "[]" "[]" "[]" "[]"
          \<open>lit ''{"a":"b"}''\<close>]
      unfolding g2 by blast
  qed
  have g4: "fenced_candidate sample_smart_text = None"
    by (simp add: sample_smart_text_def fenced_candidate_def starts_with_ci_def lower_def lit_def)
  have g5: \<open>parseJsonLenient sample_parse sample_smart_text
       = (JObj [(lit ''a'', JStr (lit ''b''))],
          [sample_smart_text, sample_smart_text, lit ''{"a":"b"}''])\<close>
    using parse_strategies_in_order[of sample_smart_text sample_parse "JNull" "[]" "[]" "[]" "[]" "[]"]
    unfolding g1 g3 g4
    by (simp add: sample_smart_text_def sample_parse_def lit_def)
  have h1: "stripCodeFences sample_block_text = lit ''[]``` }{''"
    using parse_strategies_in_order[of sample_block_text sample_parse "JNull" "[]"
        "lit ''JSON''" "lit '' ''" "lit ''[]``` }{''" "[]"] ws
    by (simp add: sample_block_text_def lit_def lower_def)
  have h2: "braces_candidate sample_block_text = None"
    by (simp add: sample_block_text_def braces_candidate_def clean_text_def is_control_def
        lastIndexOf_def lit_def)
  have h3: "fenced_candidate sample_block_text = Some (lit '' []'')"
    by (simp add: sample_block_text_def fenced_candidate_def starts_with_ci_def starts_with_def
        lower_def lit_def)
  have h4: "parseJsonLenient sample_parse sample_block_text
       = (JArr [], [sample_block_text, lit ''[]``` }{'', lit '' []''])"
    using parse_strategies_in_order[of sample_block_text sample_parse "JNull" "[]" "[]" "[]" "[]" "[]"]
    unfolding h1 h2 h3
    by (simp add: sample_block_text_def sample_parse_def lit_def)
  show ?thesis
    using a f1 f3 g1 g2 g3 g5 h1 h2 h3 h4
      parse_strategies_in_order[of "lit ''[]''" sample_parse "JArr []" "[]" "[]" "[]" "[]" "[]"]
    by simp
qed

section \<open>Properties of the parse endpoints\<close>

lemma not_object_guard:
  "(case v of JObj kvs \<Rightarrow> False | JArr xs \<Rightarrow> False | _ \<Rightarrow> True) \<longleftrightarrow> \<not> truthy v \<or> \<not> typeof_object v"
  by (cases v) simp_all

text \<open>
  Claim C3, as the code has it. With a file uploaded, its text extracted and a raw text
  returned by the generation call: when all four strategies fail on the raw text, or
  the value parsed from it is neither an object nor an array (it is \<open>null\<close>, a
  boolean, a number or a string), the reply is the 422 failure with the raw text cut to
  its first 4000 code units, no quiz is returned and no hint call is made.
\<close>

theorem invalid_output_is_422:
  assumes "fst (first_success parse
                  [Some raw, Some (stripCodeFences raw), braces_candidate raw, fenced_candidate raw] [])
             = None
           \<or> (case fst (parseJsonLenient parse raw) of
                 JObj kvs \<Rightarrow> False | JArr xs \<Rightarrow> False | _ \<Rightarrow> True)"
  shows "parse_upload parse client True (Inr extracted_text) (Inr raw)
           = (Reply422 (lit ''OpenAI did not return valid JSON'') (take 4000 raw), [])
         \<and> status (fst (parse_upload parse client True (Inr extracted_text) (Inr raw))) = 422
         \<and> length (take 4000 raw) \<le> 4000
         \<and> (length raw \<le> 4000 \<longrightarrow> take 4000 raw = raw)"
proof -
  have "\<not> truthy (fst (parseJsonLenient parse raw)) \<or> \<not> typeof_object (fst (parseJsonLenient parse raw))"
    using assms
  proof
    assume "fst (first_success parse
                  [Some raw, Some (stripCodeFences raw), braces_candidate raw, fenced_candidate raw] [])
             = None"
    then have "fst (parseJsonLenient parse raw) = JNull" by (rule parseJsonLenient_all_fail)
    then show ?thesis by simp
  next
    assume "case fst (parseJsonLenient parse raw) of
              JObj kvs \<Rightarrow> False | JArr xs \<Rightarrow> False | _ \<Rightarrow> True"
    then show ?thesis by (simp only: not_object_guard)
  qed
  then have "parse_upload parse client True (Inr extracted_text) (Inr raw)
           = (Reply422 (lit ''OpenAI did not return valid JSON'') (take 4000 raw), [])"
    by (auto simp: parse_upload_def Let_def)
  then show ?thesis by simp
qed

text \<open>The raw text \<open>oops\<close>: every strategy fails, and the reply carries the text.\<close>

theorem invalid_output_is_422_witness:
  "fst (first_success sample_parse
          [Some (lit ''oops''), Some (stripCodeFences (lit ''oops'')), braces_candidate (lit ''oops''),
           fenced_candidate (lit ''oops'')] []) = None
   \<and> parse_upload sample_parse sample_client True (Inr (lit ''page text'')) (Inr (lit ''oops''))
       = (Reply422 (lit ''OpenAI did not return valid JSON'') (lit ''oops''), [])"
proof -
  have f: "fst (first_success sample_parse
          [Some (lit ''oops''), Some (stripCodeFences (lit ''oops'')), braces_candidate (lit ''oops''),
           fenced_candidate (lit ''oops'')] []) = None"
    by (simp add: stripCodeFences_def starts_with_def ends_with_def
        braces_candidate_def clean_text_def is_control_def fenced_candidate_def
        starts_with_ci_def lower_def sample_parse_def lit_def)
  show ?thesis
    using f invalid_output_is_422[of sample_parse "lit ''oops''" sample_client "lit ''page text''"]
    by (simp add: lit_def)
qed

text \<open>
  The claim as stated fails for a parsed value that is an array: the guard
  \<open>typeof quizData !== 'object'\<close> lets it pass, and the array is returned as the quiz.
\<close>

theorem parsed_array_is_returned:
  "parseJsonLenient sample_parse (lit ''[]'') = (JArr [], [lit ''[]''])
   \<and> parse_upload sample_parse sample_client True (Inr (lit ''page text'')) (Inr (lit ''[]''))
       = (Reply200 (JArr []), [])"
  by (simp add: parse_upload_def parseJsonLenient_def try_parse_def sample_parse_def lit_def)

lemma hint_loop_total:
  "JNull \<notin> set qs \<Longrightarrow>
   \<exists>qs'. hint_loop client n qs = (List.map_filter hint_content qs, Inr qs')
     \<and> length qs' = length qs
     \<and> (\<forall>i<length qs. qs' ! i =
          (case hint_content (qs ! i) of
             None \<Rightarrow> qs ! i
           | Some t \<Rightarrow>
               set_prop (qs ! i) (lit ''hint'')
                 (JStr (case client (n + length (List.map_filter hint_content (take i qs))) t of
                          Inl e \<Rightarrow> [] | Inr h \<Rightarrow> trim h))))"
proof (induction qs arbitrary: n)
  case Nil
  then show ?case by (simp add: map_filter_simps)
next
  case (Cons q qs)
  then have q: "q \<noteq> JNull" and rest: "JNull \<notin> set qs" by auto
  show ?case
  proof (cases "hint_content q")
    case None
    from Cons.IH[OF rest, of n] obtain qs' where
      l: "hint_loop client n qs = (List.map_filter hint_content qs, Inr qs')"
      and len: "length qs' = length qs"
      and nth: "\<And>i. i < length qs \<Longrightarrow> qs' ! i =
          (case hint_content (qs ! i) of
             None \<Rightarrow> qs ! i
           | Some t \<Rightarrow>
               set_prop (qs ! i) (lit ''hint'')
                 (JStr (case client (n + length (List.map_filter hint_content (take i qs))) t of
                          Inl e \<Rightarrow> [] | Inr h \<Rightarrow> trim h)))"
      by blast
    have "hint_loop client n (q # qs) = (List.map_filter hint_content (q # qs), Inr (q # qs'))"
      using q None l by (simp add: map_filter_simps)
    moreover have "length (q # qs') = length (q # qs)" using len by simp
    moreover have "\<forall>i<length (q # qs). (q # qs') ! i =
          (case hint_content ((q # qs) ! i) of
             None \<Rightarrow> (q # qs) ! i
           | Some t \<Rightarrow>
               set_prop ((q # qs) ! i) (lit ''hint'')
                 (JStr (case client (n + length (List.map_filter hint_content (take i (q # qs)))) t of
                          Inl e \<Rightarrow> [] | Inr h \<Rightarrow> trim h)))"
    proof (intro allI impI)
      fix i assume i: "i < length (q # qs)"
      show "(q # qs') ! i =
          (case hint_content ((q # qs) ! i) of
             None \<Rightarrow> (q # qs) ! i
           | Some t \<Rightarrow>
               set_prop ((q # qs) ! i) (lit ''hint'')
                 (JStr (case client (n + length (List.map_filter hint_content (take i (q # qs)))) t of
                          Inl e \<Rightarrow> [] | Inr h \<Rightarrow> trim h)))"
      proof (cases i)
        case 0
        then show ?thesis using None by simp
      next
        case (Suc j)
        with i have "j < length qs" by simp
        from nth[OF this] Suc None show ?thesis by (simp add: map_filter_simps split: option.splits)
      qed
    qed
    ultimately show ?thesis by blast
  next
    case (Some t)
    define q' where "q' = set_prop q (lit ''hint'')
        (JStr (case client n t of Inl e \<Rightarrow> [] | Inr h \<Rightarrow> trim h))"
    from Cons.IH[OF rest, of "Suc n"] obtain qs' where
      l: "hint_loop client (Suc n) qs = (List.map_filter hint_content qs, Inr qs')"
      and len: "length qs' = length qs"
      and nth: "\<And>i. i < length qs \<Longrightarrow> qs' ! i =
          (case hint_content (qs ! i) of
             None \<Rightarrow> qs ! i
           | Some t \<Rightarrow>
               set_prop (qs ! i) (lit ''hint'')
                 (JStr (case client (Suc n + length (List.map_filter hint_content (take i qs))) t of
                          Inl e \<Rightarrow> [] | Inr h \<Rightarrow> trim h)))"
      by blast
    have "hint_loop client n (q # qs) = (List.map_filter hint_content (q # qs), Inr (q' # qs'))"
      using q Some l by (simp add: map_filter_simps q'_def Let_def)
    moreover have "length (q' # qs') = length (q # qs)" using len by simp
    moreover have "\<forall>i<length (q # qs). (q' # qs') ! i =
          (case hint_content ((q # qs) ! i) of
             None \<Rightarrow> (q # qs) ! i
           | Some t \<Rightarrow>
               set_prop ((q # qs) ! i) (lit ''hint'')
                 (JStr (case client (n + length (List.map_filter hint_content (take i (q # qs)))) t of
                          Inl e \<Rightarrow> [] | Inr h \<Rightarrow> trim h)))"
    proof (intro allI impI)
      fix i assume i: "i < length (q # qs)"
      show "(q' # qs') ! i =
          (case hint_content ((q # qs) ! i) of
             None \<Rightarrow> (q # qs) ! i
           | Some t \<Rightarrow>
               set_prop ((q # qs) ! i) (lit ''hint'')
                 (JStr (case client (n + length (List.map_filter hint_content (take i (q # qs)))) t of
                          Inl e \<Rightarrow> [] | Inr h \<Rightarrow> trim h)))"
      proof (cases i)
        case 0
        then show ?thesis using Some by (simp add: q'_def map_filter_simps)
      next
        case (Suc j)
        with i have "j < length qs" by simp
        from nth[OF this] Suc Some show ?thesis by (simp add: map_filter_simps split: option.splits)
      qed
    qed
    ultimately show ?thesis by blast
  qed
qed

lemma hint_content_question:
  "get_prop q (lit ''question'') = Some (JStr s) \<Longrightarrow> s \<noteq> [] \<Longrightarrow> hint_content q = Some (JStr s)"
  by (simp add: hint_content_def js_or_def truthy_opt_def)

text \<open>
  Claim C6, as the code has it. For a parsed quiz object whose \<open>questions\<close> is an
  array without a \<open>null\<close> element, whatever the hint calls do: the reply is 200 with
  the quiz; one hint call is made for every element whose \<open>question\<close> (or, failing
  that, \<open>prompt\<close>) is truthy, in order, and for no other; such an element gets the
  trimmed hint when its call returns and the empty hint when its call fails; every other
  element is returned as it was. An element whose \<open>question\<close> is a non-empty string
  is one of those with a call, and the call sends that string.
\<close>

theorem hint_pass_best_effort:
  assumes "fst (parseJsonLenient parse raw) = JObj kvs"
    and "map_of kvs (lit ''questions'') = Some (JArr qs)"
    and "JNull \<notin> set qs"
  shows "\<exists>qs'. parse_upload parse client True (Inr extracted_text) (Inr raw)
            = (Reply200 (JObj (AList.update (lit ''questions'') (JArr qs') kvs)),
               List.map_filter hint_content qs)
          \<and> length qs' = length qs
          \<and> (\<forall>i<length qs. qs' ! i =
               (case hint_content (qs ! i) of
                  None \<Rightarrow> qs ! i
                | Some t \<Rightarrow>
                    set_prop (qs ! i) (lit ''hint'')
                      (JStr (case client (length (List.map_filter hint_content (take i qs))) t of
                               Inl e \<Rightarrow> [] | Inr h \<Rightarrow> trim h))))
          \<and> (\<forall>i<length qs. \<forall>s. get_prop (qs ! i) (lit ''question'') = Some (JStr s) \<and> s \<noteq> []
                \<longrightarrow> hint_content (qs ! i) = Some (JStr s))"
proof -
  from hint_loop_total[OF assms(3), of client 0] obtain qs' where
    l: "hint_loop client 0 qs = (List.map_filter hint_content qs, Inr qs')"
    and len: "length qs' = length qs"
    and nth: "\<forall>i<length qs. qs' ! i =
               (case hint_content (qs ! i) of
                  None \<Rightarrow> qs ! i
                | Some t \<Rightarrow>
                    set_prop (qs ! i) (lit ''hint'')
                      (JStr (case client (0 + length (List.map_filter hint_content (take i qs))) t of
                               Inl e \<Rightarrow> [] | Inr h \<Rightarrow> trim h)))"
    by blast
  have "parse_upload parse client True (Inr extracted_text) (Inr raw)
            = (Reply200 (JObj (AList.update (lit ''questions'') (JArr qs') kvs)),
               List.map_filter hint_content qs)"
    using assms(1,2) l by (simp add: parse_upload_def Let_def)
  moreover from nth have "\<forall>i<length qs. qs' ! i =
               (case hint_content (qs ! i) of
                  None \<Rightarrow> qs ! i
                | Some t \<Rightarrow>
                    set_prop (qs ! i) (lit ''hint'')
                      (JStr (case client (length (List.map_filter hint_content (take i qs))) t of
                               Inl e \<Rightarrow> [] | Inr h \<Rightarrow> trim h)))"
    by (simp split: option.splits)
  moreover have "\<forall>i<length qs. \<forall>s. get_prop (qs ! i) (lit ''question'') = Some (JStr s) \<and> s \<noteq> []
                \<longrightarrow> hint_content (qs ! i) = Some (JStr s)"
    by (simp add: hint_content_question)
  ultimately show ?thesis using len by blast
qed

text \<open>
  Three questions; the first hint call fails and the second returns. The reply is 200,
  the first question has the empty hint, the third the trimmed one, and the second,
  which has no text, has none.
\<close>

theorem hint_pass_best_effort_witness:
  \<open>parse_upload sample_parse sample_client True (Inr (lit ''page text''))
       (Inr (lit ''{"questions":[{"question":"a"},{"id":"2"},{"prompt":"b"}]}''))
     = (Reply200 (JObj [(lit ''questions'',
           JArr [JObj [(lit ''question'', JStr (lit ''a'')), (lit ''hint'', JStr [])],
                 JObj [(lit ''id'', JStr (lit ''2''))],
                 JObj [(lit ''prompt'', JStr (lit ''b'')), (lit ''hint'', JStr (lit ''Think.''))]])]),
        [JStr (lit ''a''), JStr (lit ''b'')])
   \<and> sample_client 0 (JStr (lit ''a'')) = Inl (lit ''OpenAI API error (500)'')\<close>
proof -
  let ?raw = \<open>lit ''{"questions":[{"question":"a"},{"id":"2"},{"prompt":"b"}]}''\<close>
  let ?qs = "[JObj [(lit ''question'', JStr (lit ''a''))],
              JObj [(lit ''id'', JStr (lit ''2''))],
              JObj [(lit ''prompt'', JStr (lit ''b''))]]"
  have h1: "fst (parseJsonLenient sample_parse ?raw) = JObj [(lit ''questions'', JArr ?qs)]"
    by (simp add: parseJsonLenient_def try_parse_def sample_parse_def lit_def)
  have h2: "map_of [(lit ''questions'', JArr ?qs)] (lit ''questions'') = Some (JArr ?qs)"
    by simp
  have h3: "JNull \<notin> set ?qs" by simp
  show ?thesis
    using hint_pass_best_effort[OF h1 h2 h3, of sample_client "lit ''page text''"]
    by (simp add: parse_upload_def parseJsonLenient_def try_parse_def sample_parse_def
        sample_client_def sample_client_ok_def hint_content_def js_or_def truthy_opt_def
        trim_def is_ws_def lit_def Let_def)
qed

text \<open>
  The claim as stated fails for a quiz with a \<open>null\<close> element: reading its
  \<open>question\<close> throws, the reply is 500, and the element behind it, which has a
  question text, gets no hint call, though no hint call failed.
\<close>

theorem null_question_aborts_hints:
  \<open>fst (parseJsonLenient sample_parse (lit ''{"questions":[null,{"question":"x"}]}''))
     = JObj [(lit ''questions'', JArr [JNull, JObj [(lit ''question'', JStr (lit ''x''))]])]
   \<and> hint_content (JObj [(lit ''question'', JStr (lit ''x''))]) = Some (JStr (lit ''x''))
   \<and> parse_upload sample_parse sample_client_ok True (Inr (lit ''page text''))
        (Inr (lit ''{"questions":[null,{"question":"x"}]}''))
     = (ReplyError 500 (lit ''Cannot read properties of null (reading 'question')''), [])\<close>
  by (simp add: parse_upload_def parseJsonLenient_def try_parse_def sample_parse_def
      sample_client_def sample_client_ok_def hint_content_def js_or_def truthy_opt_def trim_def
      is_ws_def lit_def Let_def)

end
